theory Spec2Isabelle
  imports Complex_Main "HOL-Library.Word" "HOL-Library.AList"
begin

section \<open>JavaScript values\<close>

text \<open>
  A JavaScript string is a sequence of UTF-16 code units, a \<open>Uint8Array\<close> a sequence of
  bytes. Numbers that stand for times (\<open>AudioContext.currentTime\<close>, \<open>AudioBuffer.duration\<close>)
  are modelled as reals: the model idealises IEEE doubles, rounding is not part of it.
  An exception is a value of type \<open>error\<close>; a function that can throw returns \<open>error + 'a\<close>.
\<close>

type_synonym js_string = "16 word list"
type_synonym uint8array = "8 word list"

definition js :: "string \<Rightarrow> js_string" where
  "js s = map of_char s"

datatype error =
    InvalidCharacterError   \<comment> \<open>DOMException of \<open>atob\<close> and \<open>btoa\<close>\<close>
  | RangeError              \<comment> \<open>\<open>new Int16Array(buffer)\<close> on an odd byte length\<close>
  | NotSupportedError       \<comment> \<open>\<open>createBuffer\<close> outside its nominal ranges\<close>
  | InvalidStateError       \<comment> \<open>\<open>stop()\<close> on a source node that was never started\<close>
  | TypeError               \<comment> \<open>a property read on \<open>undefined\<close>\<close>
  | Failure js_string       \<comment> \<open>\<open>new Error(message)\<close>, or a rejection of a collaborator\<close>

section \<open>The platform's base64 functions\<close>

text \<open>
  \<open>btoa\<close> and \<open>atob\<close> are functions of the browser, specified by the HTML standard through
  the Infra standard's forgiving-base64 encode and decode. The encoder is RFC 4648 base64
  with padding. The decoder strips ASCII whitespace, accepts a missing padding, and drops
  the unused low bits of the last group without looking at them.
\<close>

definition b64_alphabet :: js_string where
  "b64_alphabet = js ''ABCDEFGHIJKLMNOPQRSTUVWXYZabcdefghijklmnopqrstuvwxyz0123456789+/''"

definition pad_char :: "16 word" where
  "pad_char = of_char CHR ''=''"

definition b64_char :: "nat \<Rightarrow> 16 word" where
  "b64_char i = b64_alphabet ! i"

definition b64_value :: "16 word \<Rightarrow> nat option" where
  "b64_value c = map_of (zip b64_alphabet [0..<64]) c"

text \<open>Three bytes make four 6-bit groups; a last group of one or two bytes is filled with zero bits.\<close>

fun sextets_of :: "nat list \<Rightarrow> nat list" where
  "sextets_of (a # b # c # r) =
     a div 4 # (a mod 4 * 16 + b div 16) # (b mod 16 * 4 + c div 64) # c mod 64 # sextets_of r"
| "sextets_of [a, b] = [a div 4, a mod 4 * 16 + b div 16, b mod 16 * 4]"
| "sextets_of [a] = [a div 4, a mod 4 * 16]"
| "sextets_of [] = []"

definition forgiving_base64_encode :: "nat list \<Rightarrow> js_string" where
  "forgiving_base64_encode bs =
     map b64_char (sextets_of bs) @ replicate ((3 - length bs mod 3) mod 3) pad_char"

definition btoa :: "js_string \<Rightarrow> error + js_string" where
  "btoa binary =
     (if list_ex (\<lambda>c. 255 < c) binary then Inl InvalidCharacterError
      else Inr (forgiving_base64_encode (map unat binary)))"

definition ascii_whitespace :: "16 word \<Rightarrow> bool" where
  "ascii_whitespace c = (c = 9 \<or> c = 10 \<or> c = 12 \<or> c = 13 \<or> c = 32)"

definition remove_padding :: "js_string \<Rightarrow> js_string" where
  "remove_padding d =
     (if length d mod 4 = 0 \<and> d \<noteq> [] \<and> last d = pad_char
      then (if last (butlast d) = pad_char then butlast (butlast d) else butlast d)
      else d)"

text \<open>Four 6-bit groups make three bytes; of a last group of two or three, the bits beyond
  the last whole byte are discarded.\<close>

fun bytes_of :: "nat list \<Rightarrow> nat list" where
  "bytes_of (p # q # r # s # rest) =
     (p * 4 + q div 16) # (q mod 16 * 16 + r div 4) # (r mod 4 * 64 + s) # bytes_of rest"
| "bytes_of [p, q, r] = [p * 4 + q div 16, q mod 16 * 16 + r div 4]"
| "bytes_of [p, q] = [p * 4 + q div 16]"
| "bytes_of [p] = []"
| "bytes_of [] = []"

definition forgiving_base64_decode :: "js_string \<Rightarrow> nat list option" where
  "forgiving_base64_decode s =
     (let d = remove_padding (filter (\<lambda>c. \<not> ascii_whitespace c) s) in
      if length d mod 4 = 1 then None
      else case those (map b64_value d) of
             None \<Rightarrow> None
           | Some vs \<Rightarrow> Some (bytes_of vs))"

definition atob :: "js_string \<Rightarrow> error + js_string" where
  "atob s =
     (case forgiving_base64_decode s of
        None \<Rightarrow> Inl InvalidCharacterError
      | Some bs \<Rightarrow> Inr (map of_nat bs))"

section \<open>The helpers \<open>encode\<close>, \<open>decode\<close> and \<open>decodeAudioData\<close>\<close>

definition fromCharCode :: "8 word \<Rightarrow> 16 word" where
  "fromCharCode b = ucast b"

text \<open>\<open>for (i = 0; i < len; i++) binary += String.fromCharCode(bytes[i]); return btoa(binary)\<close>\<close>

definition encode :: "uint8array \<Rightarrow> error + js_string" where
  "encode bytes =
     btoa (fold (\<lambda>i binary. binary @ [fromCharCode (bytes ! i)]) [0..<length bytes] [])"

text \<open>\<open>bytes = new Uint8Array(len); for (i = 0; i < len; i++) bytes[i] = binaryString.charCodeAt(i)\<close>:
  the array starts as zeros, a store keeps the low eight bits.\<close>

definition decode :: "js_string \<Rightarrow> error + uint8array" where
  "decode base64 =
     (case atob base64 of
        Inl e \<Rightarrow> Inl e
      | Inr binaryString \<Rightarrow>
          Inr (fold (\<lambda>i bytes. bytes[i := ucast (binaryString ! i)])
                 [0..<length binaryString] (replicate (length binaryString) 0)))"

record audio_buffer =
  numberOfChannels :: nat
  frameCount :: nat
  sampleRate :: nat
  channelData :: "real list list"

definition duration :: "audio_buffer \<Rightarrow> real" where
  "duration b = real (frameCount b) / real (sampleRate b)"

text \<open>\<open>new Int16Array(data.buffer)\<close>: pairs of bytes, low byte first; a \<open>RangeError\<close> when the
  byte length is odd.\<close>

fun int16_pairs :: "uint8array \<Rightarrow> 16 word list" where
  "int16_pairs (lo # hi # r) = (word_cat hi lo :: 16 word) # int16_pairs r"
| "int16_pairs _ = []"

definition Int16Array :: "uint8array \<Rightarrow> error + 16 word list" where
  "Int16Array bytes = (if odd (length bytes) then Inl RangeError else Inr (int16_pairs bytes))"

text \<open>\<open>ctx.createBuffer\<close> throws a \<open>NotSupportedError\<close> outside the nominal ranges of the
  Web Audio API: 1 to 32 channels, at least one frame, 8000 to 96000 Hz.\<close>

definition createBuffer :: "nat \<Rightarrow> nat \<Rightarrow> nat \<Rightarrow> error + audio_buffer" where
  "createBuffer numChannels len rate =
     (if numChannels = 0 \<or> 32 < numChannels \<or> len = 0 \<or> rate < 8000 \<or> 96000 < rate
      then Inl NotSupportedError
      else Inr \<lparr>numberOfChannels = numChannels, frameCount = len, sampleRate = rate,
                channelData = replicate numChannels (replicate len 0)\<rparr>)"

definition decodeAudioData :: "uint8array \<Rightarrow> nat \<Rightarrow> nat \<Rightarrow> error + audio_buffer" where
  "decodeAudioData bytes rate numChannels =
     (case Int16Array bytes of
        Inl e \<Rightarrow> Inl e
      | Inr dataInt16 \<Rightarrow>
          (case createBuffer numChannels (length dataInt16 div numChannels) rate of
             Inl e \<Rightarrow> Inl e
           | Inr buffer \<Rightarrow>
               Inr (buffer\<lparr>channelData :=
                      map (\<lambda>channel.
                             map (\<lambda>i. real_of_int (sint (dataInt16 ! (i * numChannels + channel))) / 32768)
                               [0..<frameCount buffer])
                        [0..<numChannels]\<rparr>)))"

text \<open>The payload of a chunk as both components decode it: \<open>decodeAudioData(decode(base64), ctx, 24000, 1)\<close>.\<close>

definition decodeChunk :: "js_string \<Rightarrow> error + audio_buffer" where
  "decodeChunk base64 =
     (case decode base64 of
        Inl e \<Rightarrow> Inl e
      | Inr bytes \<Rightarrow> decodeAudioData bytes 24000 1)"

text \<open>A string is canonical base64 when its length is a multiple of four, it consists of
  alphabet characters followed by at most two \<open>=\<close>, and the bits of its last group that
  belong to no byte are zero.\<close>

definition canonical_tail :: "nat list \<Rightarrow> bool" where
  "canonical_tail vs =
     (length vs mod 4 = 0 \<or> length vs mod 4 = 2 \<and> last vs mod 16 = 0
      \<or> length vs mod 4 = 3 \<and> last vs mod 4 = 0)"

definition canonical_base64 :: "js_string \<Rightarrow> bool" where
  "canonical_base64 s =
     (length s mod 4 = 0 \<and>
      (case those (map b64_value (remove_padding s)) of
         None \<Rightarrow> False
       | Some vs \<Rightarrow> canonical_tail vs))"

section \<open>The live session controller (\<open>VoiceAssistant\<close>)\<close>

text \<open>
  The component's state is its React state \<open>isActive\<close> and its four refs. The remaining
  fields record what the component did to the world: the source nodes it created, the
  \<open>start\<close> and \<open>stop\<close> calls on them, the \<open>close\<close> calls on sessions, the lines of
  \<open>console.error\<close> (label and error) and the rejections of handlers nobody awaits.

  The model takes each handler as one step. The only \<open>await\<close> of \<open>onmessage\<close> is on a promise
  that is already settled, so the rest of the handler runs at the end of the same turn of
  the event loop, before the next event is dispatched. \<open>currentTime\<close> is the clock of the
  session's output context, read by the handler; the platform keeps it nonnegative.
  The capture of the microphone (\<open>onopen\<close>, \<open>onaudioprocess\<close>) touches none of the fields
  and is left out.
\<close>

record source_node =
  node_id :: nat
  node_buffer :: audio_buffer
  start_time :: real

record blob =
  blob_data :: "js_string option"

record part =
  inlineData :: "blob option"

record content =
  parts :: "part list option"

record server_content =
  modelTurn :: "content option"
  interrupted :: "bool option"

record server_message =
  serverContent :: "server_content option"

record voice_assistant =
  isActive :: bool
  sessionRef :: "nat option"
  audioContextRef :: "nat option"
  nextStartTimeRef :: real
  sourcesRef :: "source_node list"
  contexts_created :: nat
  nodes_created :: nat
  started :: "source_node list"
  stopped :: "nat list"
  closed :: "nat list"
  console :: "(string \<times> error) list"
  rejections :: "error list"

text \<open>The component as mounted: \<open>useState(false)\<close>, \<open>useRef(null)\<close>, \<open>useRef(0)\<close>, \<open>new Set()\<close>.\<close>

definition mounted :: voice_assistant where
  "mounted = \<lparr>isActive = False, sessionRef = None, audioContextRef = None,
              nextStartTimeRef = 0, sourcesRef = [], contexts_created = 0, nodes_created = 0,
              started = [], stopped = [], closed = [], console = [], rejections = []\<rparr>"

text \<open>\<open>source.stop()\<close> throws on a node that was never started; \<open>try { source.stop(); } catch (e) {}\<close>
  swallows it.\<close>

definition node_stop :: "source_node \<Rightarrow> voice_assistant \<Rightarrow> error + voice_assistant" where
  "node_stop n s =
     (if node_id n \<in> node_id ` set (started s) then Inr (s\<lparr>stopped := stopped s @ [node_id n]\<rparr>)
      else Inl InvalidStateError)"

definition try_stop :: "source_node \<Rightarrow> voice_assistant \<Rightarrow> voice_assistant" where
  "try_stop n s = (case node_stop n s of Inl e \<Rightarrow> s | Inr s' \<Rightarrow> s')"

text \<open>\<open>sourcesRef.current.forEach(...); sourcesRef.current.clear(); nextStartTimeRef.current = 0\<close>,
  the block that \<open>stopSession\<close> and the interruption branch of \<open>onmessage\<close> share.\<close>

definition stop_all_sources :: "voice_assistant \<Rightarrow> voice_assistant" where
  "stop_all_sources s = (fold try_stop (sourcesRef s) s)\<lparr>sourcesRef := [], nextStartTimeRef := 0\<rparr>"

text \<open>\<open>session.close()\<close> may throw; the parameter is what it does this time.\<close>

definition stopSession :: "error option \<Rightarrow> voice_assistant \<Rightarrow> voice_assistant" where
  "stopSession close_throws s =
     (let s1 = (case sessionRef s of
                  None \<Rightarrow> s
                | Some session \<Rightarrow>
                    (case close_throws of
                       None \<Rightarrow> s\<lparr>closed := closed s @ [session]\<rparr>
                     | Some e \<Rightarrow> s)\<lparr>sessionRef := None\<rparr>)
      in (stop_all_sources s1)\<lparr>isActive := False\<rparr>)"

text \<open>What the environment does to one call of \<open>startSession\<close>: a constructor throws before
  any context exists, the constructor of the output context throws after the input context
  was made, \<open>getUserMedia\<close> rejects, \<open>ai.live.connect\<close> rejects, or the session handle
  arrives. \<open>audioContextRef\<close> is assigned once both contexts exist.\<close>

datatype start_outcome =
    SetupThrows error
  | OutputContextThrows error
  | MediaRejected error
  | ConnectRejected error
  | Connected nat

definition start_failed :: string where
  "start_failed = ''Failed to start voice assistant:''"

definition startSession :: "start_outcome \<Rightarrow> voice_assistant \<Rightarrow> voice_assistant" where
  "startSession outcome s =
     (let with_contexts = s\<lparr>audioContextRef := Some (Suc (contexts_created s)),
                             contexts_created := contexts_created s + 2\<rparr>
      in case outcome of
           SetupThrows e \<Rightarrow> s\<lparr>console := console s @ [(start_failed, e)]\<rparr>
         | OutputContextThrows e \<Rightarrow>
             s\<lparr>contexts_created := Suc (contexts_created s),
               console := console s @ [(start_failed, e)]\<rparr>
         | MediaRejected e \<Rightarrow>
             with_contexts\<lparr>console := console with_contexts @ [(start_failed, e)]\<rparr>
         | ConnectRejected e \<Rightarrow>
             with_contexts\<lparr>console := console with_contexts @ [(start_failed, e)]\<rparr>
         | Connected session \<Rightarrow> with_contexts\<lparr>sessionRef := Some session, isActive := True\<rparr>)"

text \<open>\<open>msg.serverContent?.modelTurn?.parts[0]?.inlineData?.data\<close>: the chain stops at a
  missing \<open>serverContent\<close> or \<open>modelTurn\<close>, the index on a missing \<open>parts\<close> throws.\<close>

definition base64Audio_of :: "server_message \<Rightarrow> error + js_string option" where
  "base64Audio_of msg =
     (case serverContent msg of
        None \<Rightarrow> Inr None
      | Some sc \<Rightarrow>
          (case modelTurn sc of
             None \<Rightarrow> Inr None
           | Some turn \<Rightarrow>
               (case parts turn of
                  None \<Rightarrow> Inl TypeError
                | Some [] \<Rightarrow> Inr None
                | Some (p # ps) \<Rightarrow>
                    (case inlineData p of
                       None \<Rightarrow> Inr None
                     | Some b \<Rightarrow> Inr (blob_data b)))))"

definition is_interrupted :: "server_message \<Rightarrow> bool" where
  "is_interrupted msg =
     (case serverContent msg of
        None \<Rightarrow> False
      | Some sc \<Rightarrow> interrupted sc = Some True)"

definition reject :: "error \<Rightarrow> voice_assistant \<Rightarrow> voice_assistant" where
  "reject e s = s\<lparr>rejections := rejections s @ [e]\<rparr>"

definition on_interrupted :: "server_message \<Rightarrow> voice_assistant \<Rightarrow> voice_assistant" where
  "on_interrupted msg s = (if is_interrupted msg then stop_all_sources s else s)"

text \<open>The audio branch of \<open>onmessage\<close>, lines 349 to 357. The node is new, so \<open>Set.add\<close>
  appends it.\<close>

definition schedule_chunk :: "real \<Rightarrow> js_string \<Rightarrow> voice_assistant \<Rightarrow> error + voice_assistant" where
  "schedule_chunk currentTime payload s =
     (case decodeChunk payload of
        Inl e \<Rightarrow> Inl e
      | Inr buffer \<Rightarrow>
          (let startTime = max (nextStartTimeRef s) currentTime;
               sourceNode = \<lparr>node_id = nodes_created s, node_buffer = buffer, start_time = startTime\<rparr>
           in Inr (s\<lparr>nodes_created := Suc (nodes_created s),
                      started := started s @ [sourceNode],
                      nextStartTimeRef := startTime + duration buffer,
                      sourcesRef := sourcesRef s @ [sourceNode]\<rparr>)))"

text \<open>When decoding throws, the handler's promise rejects after \<open>nextStartTimeRef\<close> has
  taken the maximum, and the interruption branch is not reached.\<close>

definition onmessage :: "real \<Rightarrow> server_message \<Rightarrow> voice_assistant \<Rightarrow> voice_assistant" where
  "onmessage currentTime msg s =
     (case base64Audio_of msg of
        Inl e \<Rightarrow> reject e s
      | Inr None \<Rightarrow> on_interrupted msg s
      | Inr (Some payload) \<Rightarrow>
          if payload = [] then on_interrupted msg s
          else (case schedule_chunk currentTime payload s of
                  Inl e \<Rightarrow> reject e (s\<lparr>nextStartTimeRef := max (nextStartTimeRef s) currentTime\<rparr>)
                | Inr s' \<Rightarrow> on_interrupted msg s'))"

text \<open>The audio part of a message is handled when reading it and decoding it throw nothing;
  only then does the handler reach its interruption branch.\<close>

definition audio_part_handled :: "server_message \<Rightarrow> bool" where
  "audio_part_handled msg =
     (case base64Audio_of msg of
        Inl e \<Rightarrow> False
      | Inr None \<Rightarrow> True
      | Inr (Some payload) \<Rightarrow>
          payload = [] \<or> (case decodeChunk payload of Inl e \<Rightarrow> False | Inr buffer \<Rightarrow> True))"

text \<open>The \<open>ended\<close> listener of a source node: \<open>sourcesRef.current.delete(sourceNode)\<close>.\<close>

definition ended :: "nat \<Rightarrow> voice_assistant \<Rightarrow> voice_assistant" where
  "ended n s = s\<lparr>sourcesRef := filter (\<lambda>x. node_id x \<noteq> n) (sourcesRef s)\<rparr>"

definition onclose :: "voice_assistant \<Rightarrow> voice_assistant" where
  "onclose s = s\<lparr>isActive := False\<rparr>"

definition onerror :: "error \<Rightarrow> voice_assistant \<Rightarrow> voice_assistant" where
  "onerror e s = s\<lparr>console := console s @ [(''Live Error:'', e)]\<rparr>"

text \<open>What can happen to the mounted component. The button calls \<open>stopSession\<close> when
  \<open>isActive\<close> and \<open>startSession\<close> otherwise.\<close>

datatype assistant_event =
    Click start_outcome "error option"
  | Message real server_message
  | Ended nat
  | Close
  | Error error

fun assistant_step :: "assistant_event \<Rightarrow> voice_assistant \<Rightarrow> voice_assistant" where
  "assistant_step (Click outcome close_throws) s =
     (if isActive s then stopSession close_throws s else startSession outcome s)"
| "assistant_step (Message currentTime msg) s = onmessage currentTime msg s"
| "assistant_step (Ended n) s = ended n s"
| "assistant_step Close s = onclose s"
| "assistant_step (Error e) s = onerror e s"

definition assistant_run :: "assistant_event list \<Rightarrow> voice_assistant \<Rightarrow> voice_assistant" where
  "assistant_run evs s = fold assistant_step evs s"

text \<open>A message that carries one audio payload and nothing else.\<close>

definition audio_message :: "js_string \<Rightarrow> server_message" where
  "audio_message payload =
     \<lparr>serverContent = Some \<lparr>modelTurn = Some \<lparr>parts = Some [\<lparr>inlineData = Some \<lparr>blob_data = Some payload\<rparr>\<rparr>]\<rparr>,
                              interrupted = None\<rparr>\<rparr>"

definition interrupt_message :: server_message where
  "interrupt_message = \<lparr>serverContent = Some \<lparr>modelTurn = None, interrupted = Some True\<rparr>\<rparr>"

text \<open>Two interruptions whose audio part throws: a \<open>modelTurn\<close> without \<open>parts\<close>, and a payload
  of one byte.\<close>

definition interrupt_without_parts :: server_message where
  "interrupt_without_parts =
     \<lparr>serverContent = Some \<lparr>modelTurn = Some \<lparr>parts = None\<rparr>, interrupted = Some True\<rparr>\<rparr>"

definition interrupt_with_odd_audio :: server_message where
  "interrupt_with_odd_audio =
     \<lparr>serverContent =
        Some \<lparr>modelTurn = Some \<lparr>parts = Some [\<lparr>inlineData = Some \<lparr>blob_data = Some (js ''AA=='')\<rparr>\<rparr>]\<rparr>,
              interrupted = Some True\<rparr>\<rparr>"

text \<open>Three runs of the mounted component. In the first a chunk is tracked and playing. In
  the second an interruption arrives between two chunks, while the first chunk is still
  playing. In the third the remote side closes the connection while a chunk is tracked.\<close>

definition tracked_run :: "assistant_event list" where
  "tracked_run = [Click (Connected 1) None, Message 0 (audio_message (js ''AAAAAAAA''))]"

definition interrupted_run :: "assistant_event list" where
  "interrupted_run =
     [Click (Connected 1) None,
      Message 0 (audio_message (js ''AAAAAAAAAAAAAAAA'')),
      Message (1 / 8000) interrupt_message,
      Message (1 / 8000) (audio_message (js ''AAAAAAAA''))]"

definition closed_run :: "assistant_event list" where
  "closed_run =
     [Click (Connected 1) None, Message 0 (audio_message (js ''AAAAAAAA'')), Close]"

text \<open>Clips tracked one after the other do not overlap when each starts no earlier than
  every clip before it ends.\<close>

fun no_overlap :: "source_node list \<Rightarrow> bool" where
  "no_overlap [] = True"
| "no_overlap (n # ns) =
     (list_all (\<lambda>m. start_time n + duration (node_buffer n) \<le> start_time m) ns \<and> no_overlap ns)"

text \<open>What every reachable state of the component satisfies: the tracked nodes were started,
  they do not overlap, and each ends no later than \<open>nextStartTimeRef\<close>.\<close>

definition was_started :: "voice_assistant \<Rightarrow> source_node \<Rightarrow> bool" where
  "was_started s = (\<lambda>n. node_id n \<in> node_id ` set (started s))"

definition tracked_ok :: "voice_assistant \<Rightarrow> bool" where
  "tracked_ok s =
     (list_all (was_started s) (sourcesRef s) \<and> no_overlap (sourcesRef s) \<and>
      list_all (\<lambda>n. start_time n + duration (node_buffer n) \<le> nextStartTimeRef s) (sourcesRef s))"

text \<open>The nodes of a run of chunks that arrive at one clock time: the first starts at \<open>base\<close>,
  each next one where the one before ends.\<close>

definition chunk_nodes :: "nat \<Rightarrow> real \<Rightarrow> audio_buffer list \<Rightarrow> source_node list" where
  "chunk_nodes first base bs =
     map (\<lambda>i. \<lparr>node_id = first + i, node_buffer = bs ! i,
                start_time = base + sum_list (map duration (take i bs))\<rparr>) [0..<length bs]"

section \<open>The clip player (\<open>App\<close>)\<close>

text \<open>
  \<open>playAudio\<close> is an async function with two suspension points, the fetch of the audio and
  the decoding. The model has one function for each stretch of it that runs without
  suspension, and a list of the calls that are suspended; an event resumes one of them.
  A source node remembers the \<open>questionId\<close> that its \<open>onended\<close> handler captured.
\<close>

record clip_source =
  clip_id :: nat
  clip_buffer :: audio_buffer
  clip_questionId :: js_string

record app =
  isAudioLoading :: bool
  isPlaying :: bool
  audioContextRef_App :: "nat option"
  audioSourceRef :: "clip_source option"
  activeAudioQuestionIdRef :: "js_string option"
  clips_created :: nat
  clips_started :: "clip_source list"
  clips_stopped :: "nat list"
  console_App :: "(string \<times> error) list"

definition clip_stop :: "clip_source \<Rightarrow> app \<Rightarrow> error + app" where
  "clip_stop src s =
     (if clip_id src \<in> clip_id ` set (clips_started s)
      then Inr (s\<lparr>clips_stopped := clips_stopped s @ [clip_id src]\<rparr>)
      else Inl InvalidStateError)"

definition stopAudio :: "app \<Rightarrow> app" where
  "stopAudio s =
     (let s1 = s\<lparr>activeAudioQuestionIdRef := None\<rparr>;
          s2 = (case audioSourceRef s1 of
                  None \<Rightarrow> s1
                | Some src \<Rightarrow>
                    (case clip_stop src s1 of Inl e \<Rightarrow> s1 | Inr s' \<Rightarrow> s')\<lparr>audioSourceRef := None\<rparr>)
      in s2\<lparr>isPlaying := False\<rparr>)"

text \<open>\<open>catch (err) { console.error(...) }\<close> and
  \<open>finally { if (activeAudioQuestionIdRef.current === questionId) setIsAudioLoading(false) }\<close>\<close>

definition caught :: "error \<Rightarrow> app \<Rightarrow> app" where
  "caught err s = s\<lparr>console_App := console_App s @ [(''Failed to play audio:'', err)]\<rparr>"

definition finally_block :: "js_string \<Rightarrow> app \<Rightarrow> app" where
  "finally_block questionId s =
     (if activeAudioQuestionIdRef s = Some questionId then s\<lparr>isAudioLoading := False\<rparr> else s)"

text \<open>From the call to the first \<open>await\<close>.\<close>

definition playAudio_called :: "js_string \<Rightarrow> app \<Rightarrow> app" where
  "playAudio_called questionId s =
     (stopAudio s)\<lparr>activeAudioQuestionIdRef := Some questionId, isAudioLoading := True\<rparr>"

text \<open>From the settled fetch to the second \<open>await\<close>; the result is the promise of
  \<open>decodeAudioData\<close> when the function suspends again.\<close>

definition playAudio_fetched ::
    "js_string \<Rightarrow> error + js_string \<Rightarrow> app \<Rightarrow> app \<times> (error + audio_buffer) option" where
  "playAudio_fetched questionId fetched s =
     (case fetched of
        Inl err \<Rightarrow> (finally_block questionId (caught err s), None)
      | Inr base64Audio \<Rightarrow>
          if activeAudioQuestionIdRef s \<noteq> Some questionId then (finally_block questionId s, None)
          else (let s1 = (case audioContextRef_App s of
                            None \<Rightarrow> s\<lparr>audioContextRef_App := Some 0\<rparr>
                          | Some ctx \<Rightarrow> s)
                in case decode base64Audio of
                     Inl err \<Rightarrow> (finally_block questionId (caught err s1), None)
                   | Inr bytes \<Rightarrow> (s1, Some (decodeAudioData bytes 24000 1))))"

text \<open>From the settled decoding to the end.\<close>

definition playAudio_decoded :: "js_string \<Rightarrow> error + audio_buffer \<Rightarrow> app \<Rightarrow> app" where
  "playAudio_decoded questionId decoded s =
     (case decoded of
        Inl err \<Rightarrow> finally_block questionId (caught err s)
      | Inr audioBuffer \<Rightarrow>
          if activeAudioQuestionIdRef s \<noteq> Some questionId then finally_block questionId s
          else (let source = \<lparr>clip_id = clips_created s, clip_buffer = audioBuffer,
                               clip_questionId = questionId\<rparr>
                in finally_block questionId
                     (s\<lparr>clips_created := Suc (clips_created s),
                        audioSourceRef := Some source,
                        clips_started := clips_started s @ [source],
                        isPlaying := True\<rparr>)))"

text \<open>\<open>source.onended = () => { if (activeAudioQuestionIdRef.current === questionId) setIsPlaying(false) }\<close>\<close>

definition onended :: "js_string \<Rightarrow> app \<Rightarrow> app" where
  "onended questionId s =
     (if activeAudioQuestionIdRef s = Some questionId then s\<lparr>isPlaying := False\<rparr> else s)"

datatype suspended =
    Fetching js_string js_string
  | Decoding js_string "error + audio_buffer"

record player =
  app_state :: app
  in_flight :: "suspended list"

datatype player_event =
    Play js_string js_string
  | StopPressed
  | Fetched nat "error + js_string"
  | Decoded nat
  | ClipEnded nat

definition remove_nth :: "nat \<Rightarrow> 'a list \<Rightarrow> 'a list" where
  "remove_nth i xs = take i xs @ drop (Suc i) xs"

text \<open>An event that names no suspended call of its kind, or no started clip, changes nothing.\<close>

fun player_step :: "player_event \<Rightarrow> player \<Rightarrow> player" where
  "player_step (Play questionId txt) p =
     p\<lparr>app_state := playAudio_called questionId (app_state p),
       in_flight := in_flight p @ [Fetching questionId txt]\<rparr>"
| "player_step StopPressed p = p\<lparr>app_state := stopAudio (app_state p)\<rparr>"
| "player_step (Fetched i fetched) p =
     (if i < length (in_flight p) then
        (case in_flight p ! i of
           Fetching questionId txt \<Rightarrow>
             (case playAudio_fetched questionId fetched (app_state p) of
                (s, None) \<Rightarrow> p\<lparr>app_state := s, in_flight := remove_nth i (in_flight p)\<rparr>
              | (s, Some promise) \<Rightarrow>
                  p\<lparr>app_state := s,
                    in_flight := remove_nth i (in_flight p) @ [Decoding questionId promise]\<rparr>)
         | Decoding questionId promise \<Rightarrow> p)
      else p)"
| "player_step (Decoded i) p =
     (if i < length (in_flight p) then
        (case in_flight p ! i of
           Fetching questionId txt \<Rightarrow> p
         | Decoding questionId promise \<Rightarrow>
             p\<lparr>app_state := playAudio_decoded questionId promise (app_state p),
               in_flight := remove_nth i (in_flight p)\<rparr>)
      else p)"
| "player_step (ClipEnded i) p =
     (if i < length (clips_started (app_state p))
      then p\<lparr>app_state := onended (clip_questionId (clips_started (app_state p) ! i)) (app_state p)\<rparr>
      else p)"

definition player_mounted :: player where
  "player_mounted =
     \<lparr>app_state = \<lparr>isAudioLoading = False, isPlaying = False, audioContextRef_App = None,
                   audioSourceRef = None, activeAudioQuestionIdRef = None, clips_created = 0,
                   clips_started = [], clips_stopped = [], console_App = []\<rparr>,
      in_flight = []\<rparr>"

definition player_run :: "player_event list \<Rightarrow> player \<Rightarrow> player" where
  "player_run evs p = fold player_step evs p"

text \<open>Short names for the token and for the clips started so far.\<close>

definition active :: "player \<Rightarrow> js_string option" where
  "active p = activeAudioQuestionIdRef (app_state p)"

definition clips :: "player \<Rightarrow> clip_source list" where
  "clips p = clips_started (app_state p)"

fun is_play :: "player_event \<Rightarrow> bool" where
  "is_play (Play questionId txt) = True"
| "is_play e = False"

section \<open>The cache (\<open>services/dbService\<close>) and the speech request (\<open>services/geminiService\<close>)\<close>

text \<open>
  \<open>auth.currentUser\<close> is a user or \<open>null\<close>. The two collections are lists of documents by
  id. Every call of the document store may reject; the parameter \<open>fault\<close> of a function is
  the rejection of its call, if any. A function returns its result, the store after it
  where it writes, and the lines it printed on the console.
\<close>

record user =
  uid :: js_string
  emailVerified :: bool

record cached_entry =
  questionId :: js_string
  answer :: js_string
  sources :: "(js_string \<times> js_string) option list"
  audioBase64 :: "js_string option"
  timestamp :: nat

record question =
  question_id :: js_string
  question_text :: js_string
  category :: js_string
  isCustom :: "bool option"

record question_doc = question +
  userId :: js_string
  createdAt :: nat

record firestore =
  ai_answers :: "(js_string \<times> cached_entry) list"
  user_questions :: "(js_string \<times> question_doc) list"

datatype console_line =
    Warned js_string
  | Logged js_string error

definition getValidUser :: "user option \<Rightarrow> user option \<times> console_line list" where
  "getValidUser currentUser =
     (case currentUser of
        None \<Rightarrow> (None, [Warned (js ''Operation skipped: No authenticated user found.'')])
      | Some u \<Rightarrow> (Some u, []))"

definition getCachedAnswer ::
    "user option \<Rightarrow> error option \<Rightarrow> firestore \<Rightarrow> js_string \<Rightarrow> cached_entry option \<times> console_line list" where
  "getCachedAnswer currentUser fault db qid =
     (case getValidUser currentUser of
        (None, out) \<Rightarrow> (None, out)
      | (Some u, out) \<Rightarrow>
          (case fault of
             Some e \<Rightarrow>
               (None, out @ [Logged (js ''[Firestore Error] getCachedAnswer('' @ qid @ js ''):'') e])
           | None \<Rightarrow> (map_of (ai_answers db) qid, out)))"

definition saveAnswerToCache ::
    "user option \<Rightarrow> error option \<Rightarrow> firestore \<Rightarrow> cached_entry \<Rightarrow> firestore \<times> console_line list" where
  "saveAnswerToCache currentUser fault db entry =
     (case getValidUser currentUser of
        (None, out) \<Rightarrow> (db, out)
      | (Some u, out) \<Rightarrow>
          (case fault of
             Some e \<Rightarrow> (db, out @ [Logged (js ''[Firestore Error] saveAnswerToCache:'') e])
           | None \<Rightarrow>
               (db\<lparr>ai_answers := AList.update (questionId entry) entry (ai_answers db)\<rparr>, out)))"

definition getAllCachedIds ::
    "user option \<Rightarrow> error option \<Rightarrow> firestore \<Rightarrow> js_string list \<times> console_line list" where
  "getAllCachedIds currentUser fault db =
     (case getValidUser currentUser of
        (None, out) \<Rightarrow> ([], out)
      | (Some u, out) \<Rightarrow>
          (case fault of
             Some e \<Rightarrow> ([], out @ [Logged (js ''[Firestore Error] getAllCachedIds:'') e])
           | None \<Rightarrow> (map fst (ai_answers db), out)))"

text \<open>\<open>{ id: doc.id, ...doc.data() }\<close>: the stored document has an \<open>id\<close> of its own, which the
  spread puts over \<open>doc.id\<close>.\<close>

definition getCustomQuestions ::
    "user option \<Rightarrow> error option \<Rightarrow> firestore \<Rightarrow> question_doc list \<times> console_line list" where
  "getCustomQuestions currentUser fault db =
     (case getValidUser currentUser of
        (None, out) \<Rightarrow> ([], out)
      | (Some u, out) \<Rightarrow>
          (case fault of
             Some e \<Rightarrow> ([], out @ [Logged (js ''[Firestore Error] getCustomQuestions:'') e])
           | None \<Rightarrow> (map snd (filter (\<lambda>d. userId (snd d) = uid u) (user_questions db)), out)))"

definition saveCustomQuestion ::
    "user option \<Rightarrow> error option \<Rightarrow> nat \<Rightarrow> firestore \<Rightarrow> question \<Rightarrow> firestore \<times> console_line list" where
  "saveCustomQuestion currentUser fault now db q =
     (case getValidUser currentUser of
        (None, out) \<Rightarrow> (db, out)
      | (Some u, out) \<Rightarrow>
          (case fault of
             Some e \<Rightarrow> (db, out @ [Logged (js ''[Firestore Error] saveCustomQuestion:'') e])
           | None \<Rightarrow>
               (db\<lparr>user_questions :=
                     AList.update (question_id q)
                       (question.extend q \<lparr>userId = uid u, createdAt = now\<rparr>)
                       (user_questions db)\<rparr>, out)))"

definition deleteCustomQuestion ::
    "user option \<Rightarrow> error option \<Rightarrow> firestore \<Rightarrow> js_string \<Rightarrow> firestore \<times> console_line list" where
  "deleteCustomQuestion currentUser fault db qid =
     (case getValidUser currentUser of
        (None, out) \<Rightarrow> (db, out)
      | (Some u, out) \<Rightarrow>
          (case fault of
             Some e \<Rightarrow> (db, out @ [Logged (js ''[Firestore Error] deleteCustomQuestion:'') e])
           | None \<Rightarrow> (db\<lparr>user_questions := AList.delete qid (user_questions db)\<rparr>, out)))"

text \<open>\<open>text.replace(/[#*`]/g, '').replace(/\n\n/g, '. ').substring(0, 1500)\<close>. The second
  replacement scans from the left and its matches do not overlap.\<close>

definition markdown_char :: "16 word \<Rightarrow> bool" where
  "markdown_char c = (c = of_char CHR ''#'' \<or> c = of_char CHR ''*'' \<or> c = of_char CHR 0x60)"

fun replace_blank_lines :: "js_string \<Rightarrow> js_string" where
  "replace_blank_lines (c # d # r) =
     (if c = 10 \<and> d = 10 then js ''. '' @ replace_blank_lines r
      else c # replace_blank_lines (d # r))"
| "replace_blank_lines r = r"

fun has_blank_line :: "js_string \<Rightarrow> bool" where
  "has_blank_line (c # d # r) = (c = 10 \<and> d = 10 \<or> has_blank_line (d # r))"
| "has_blank_line r = False"

definition cleanText :: "js_string \<Rightarrow> js_string" where
  "cleanText txt = take 1500 (replace_blank_lines (filter (\<lambda>c. \<not> markdown_char c) txt))"

definition tts_prompt :: "js_string \<Rightarrow> js_string" where
  "tts_prompt txt = js ''Explain this as a friendly mentor in a podcast style: '' @ cleanText txt"

text \<open>The speech collaborator answers a prompt with a rejection, or with a response whose
  first part may carry audio data. The function returns its result, the store, the
  prompts it sent and the console lines.\<close>

record speech_result =
  returned :: "error + js_string"
  store :: firestore
  prompts :: "js_string list"
  printed :: "console_line list"

definition getAudioFromText ::
    "user option \<Rightarrow> error option \<Rightarrow> error option \<Rightarrow> (js_string \<Rightarrow> error + js_string option) \<Rightarrow>
     firestore \<Rightarrow> js_string \<Rightarrow> js_string \<Rightarrow> speech_result" where
  "getAudioFromText currentUser read_fault write_fault tts db qid txt =
     (case getCachedAnswer currentUser read_fault db qid of
        (cached, out) \<Rightarrow>
          (case (case cached of None \<Rightarrow> None | Some c \<Rightarrow> audioBase64 c) of
             Some (a # as) \<Rightarrow> \<lparr>returned = Inr (a # as), store = db, prompts = [], printed = out\<rparr>
           | _ \<Rightarrow>
               (case tts (tts_prompt txt) of
                  Inl e \<Rightarrow>
                    \<lparr>returned = Inl e, store = db, prompts = [tts_prompt txt],
                     printed = out @ [Logged (js ''TTS Error:'') e]\<rparr>
                | Inr (Some (a # as)) \<Rightarrow>
                    (case cached of
                       None \<Rightarrow>
                         \<lparr>returned = Inr (a # as), store = db, prompts = [tts_prompt txt],
                          printed = out\<rparr>
                     | Some c \<Rightarrow>
                         (case saveAnswerToCache currentUser write_fault db
                                 (c\<lparr>audioBase64 := Some (a # as)\<rparr>) of
                            (db', out') \<Rightarrow>
                              \<lparr>returned = Inr (a # as), store = db', prompts = [tts_prompt txt],
                               printed = out @ out'\<rparr>))
                | Inr _ \<Rightarrow>
                    \<lparr>returned = Inl (Failure (js ''No audio data received'')), store = db,
                     prompts = [tts_prompt txt],
                     printed = out @ [Logged (js ''TTS Error:'')
                                        (Failure (js ''No audio data received''))]\<rparr>)))"

text \<open>The warning of \<open>getValidUser\<close>, an empty store and an entry for the examples, and the
  audio of a cache lookup.\<close>

definition signed_out_warning :: "console_line list" where
  "signed_out_warning = [Warned (js ''Operation skipped: No authenticated user found.'')]"

definition no_store :: firestore where
  "no_store = \<lparr>ai_answers = [], user_questions = []\<rparr>"

definition sample_entry :: cached_entry where
  "sample_entry = \<lparr>questionId = js ''q1'', answer = js ''An answer'', sources = [],
                    audioBase64 = None, timestamp = 0\<rparr>"

definition cached_audio :: "cached_entry option \<Rightarrow> js_string option" where
  "cached_audio cached = (case cached of None \<Rightarrow> None | Some c \<Rightarrow> audioBase64 c)"

section \<open>Base64 round trips\<close>

lemma encode_fold:
  "n \<le> length bytes \<Longrightarrow>
   fold (\<lambda>i binary. binary @ [f (bytes ! i)]) [0..<n] acc = acc @ map f (take n bytes)"
  by (induction n) (simp_all add: take_Suc_conv_app_nth)

lemma decode_fold:
  "n \<le> length s \<Longrightarrow>
   fold (\<lambda>i bytes. bytes[i := g (s ! i)]) [0..<n] (replicate (length s) z)
     = map g (take n s) @ replicate (length s - n) z"
proof (induction n)
  case 0
  then show ?case by simp
next
  case (Suc n)
  then have "n < length s" by simp
  then have r: "replicate (length s - n) z = z # replicate (length s - Suc n) z"
    by (metis Suc_diff_Suc replicate_Suc)
  show ?case using Suc \<open>n < length s\<close>
    by (simp add: take_Suc_conv_app_nth r list_update_append)
qed

lemma b64_alphabet_length: "length b64_alphabet = 64"
  by (simp add: b64_alphabet_def js_def)

lemma b64_alphabet_distinct: "distinct b64_alphabet"
  by (simp add: b64_alphabet_def js_def)

lemma b64_value_char: "i < 64 \<Longrightarrow> b64_value (b64_char i) = Some i"
  unfolding b64_value_def b64_char_def
  using map_of_zip_nth [of b64_alphabet "[0..<64]" i]
  by (simp add: b64_alphabet_length b64_alphabet_distinct)

lemma b64_value_pad: "b64_value pad_char = None"
  by code_simp

lemma b64_value_ws: "ascii_whitespace c \<Longrightarrow> b64_value c = None"
proof -
  have "b64_value 9 = None" "b64_value 10 = None" "b64_value 12 = None"
    "b64_value 13 = None" "b64_value 32 = None"
    by code_simp+
  then show "ascii_whitespace c \<Longrightarrow> b64_value c = None"
    by (auto simp add: ascii_whitespace_def)
qed

lemma pad_not_ws: "\<not> ascii_whitespace pad_char"
  by (simp add: ascii_whitespace_def pad_char_def)

lemma b64_char_not_pad: "i < 64 \<Longrightarrow> b64_char i \<noteq> pad_char"
  using b64_value_char [of i] b64_value_pad by auto

lemma b64_char_not_ws: "i < 64 \<Longrightarrow> \<not> ascii_whitespace (b64_char i)"
  using b64_value_char [of i] b64_value_ws [of "b64_char i"] by auto

lemma sextets_bound:
  "list_all (\<lambda>x. x < 256) bs \<Longrightarrow> list_all (\<lambda>v. v < 64) (sextets_of bs)"
  by (induction bs rule: sextets_of.induct) auto

lemma bytes_of_sextets:
  "list_all (\<lambda>x. x < 256) bs \<Longrightarrow> bytes_of (sextets_of bs) = bs"
  by (induction bs rule: sextets_of.induct) auto

lemma length_sextets:
  "length (sextets_of bs) = (length bs div 3) * 4 + (if length bs mod 3 = 0 then 0 else length bs mod 3 + 1)"
  by (induction bs rule: sextets_of.induct) auto

lemma those_b64:
  "list_all (\<lambda>v. v < 64) vs \<Longrightarrow> those (map b64_value (map b64_char vs)) = Some vs"
  by (induction vs) (simp_all add: b64_value_char)

lemma remove_padding_body:
  assumes "list_all (\<lambda>c. c \<noteq> pad_char) body" "k \<le> 2" "(length body + k) mod 4 = 0"
  shows "remove_padding (body @ replicate k pad_char) = body"
proof -
  consider "k = 0" | "k = 1" | "k = 2" using assms(2) by linarith
  then show ?thesis
  proof cases
    case 1
    show ?thesis
    proof (cases "body = []")
      case True
      then show ?thesis using 1 by (simp add: remove_padding_def)
    next
      case False
      then have "last body \<in> set body" by simp
      then have "last body \<noteq> pad_char" using assms(1) by (simp add: list_all_iff)
      then show ?thesis using 1 by (simp add: remove_padding_def)
    qed
  next
    case 2
    have "body \<noteq> []" using 2 assms(3) by auto
    then have "last body \<in> set body" by simp
    then have "last body \<noteq> pad_char" using assms(1) by (simp add: list_all_iff)
    then show ?thesis using 2 assms(3) \<open>body \<noteq> []\<close>
      by (simp add: remove_padding_def butlast_append)
  next
    case 3
    have r: "replicate k pad_char = [pad_char, pad_char]" using 3 by (simp add: numeral_2_eq_2)
    show ?thesis using assms(3) 3 unfolding r 
      by (simp add: remove_padding_def butlast_append)
  qed
qed

lemma forgiving_roundtrip:
  assumes "list_all (\<lambda>x. x < 256) bs"
  shows "forgiving_base64_decode (forgiving_base64_encode bs) = Some bs"
proof -
  let ?body = "map b64_char (sextets_of bs)"
  let ?k = "(3 - length bs mod 3) mod 3"
  have sx: "list_all (\<lambda>v. v < 64) (sextets_of bs)" using assms by (rule sextets_bound)
  have nopad: "list_all (\<lambda>c. c \<noteq> pad_char) ?body"
    using sx by (auto simp add: list_all_iff b64_char_not_pad)
  have nows: "filter (\<lambda>c. \<not> ascii_whitespace c) (?body @ replicate ?k pad_char) = ?body @ replicate ?k pad_char"
    using sx by (auto simp add: list_all_iff b64_char_not_ws pad_not_ws filter_id_conv)
  have k2: "?k \<le> 2" by simp
  have len: "(length ?body + ?k) mod 4 = 0"
    by (simp add: length_sextets; presburger)
  have len1: "length ?body mod 4 \<noteq> 1"
    by (simp add: length_sextets; presburger)
  have rp: "remove_padding (?body @ replicate ?k pad_char) = ?body"
    using nopad k2 len by (rule remove_padding_body)
  show ?thesis
    unfolding forgiving_base64_decode_def forgiving_base64_encode_def nows rp Let_def
    using len1 by (simp add: those_b64 [OF sx] bytes_of_sextets [OF assms] del: map_map)
qed

lemma unat_byte: "unat (b :: 8 word) < 256"
  using unsigned_less [of b, where 'a=nat] by simp

lemma unat_fromCharCode: "unat (fromCharCode b) = unat b"
  unfolding fromCharCode_def
  by (simp add: unsigned_ucast_eq take_bit_nat_eq_self_iff) (use unsigned_less [of b, where 'a=nat] in simp)

lemma encode_eq: "encode b = Inr (forgiving_base64_encode (map unat b))"
proof -
  let ?bin = "map fromCharCode b"
  have bin: "fold (\<lambda>i binary. binary @ [fromCharCode (b ! i)]) [0..<length b] [] = ?bin"
    using encode_fold [of "length b" b fromCharCode "[]"] by simp
  have "\<not> 255 < fromCharCode x" for x
    using unat_byte [of x] by (simp add: word_less_nat_alt unat_fromCharCode)
  then have noex: "\<not> list_ex (\<lambda>c. 255 < c) ?bin"
    by (simp add: list_ex_iff)
  have "map unat ?bin = map unat b"
    by (simp add: unat_fromCharCode)
  then show ?thesis
    unfolding encode_def bin btoa_def using noex by (simp del: map_map)
qed

lemma decode_eq:
  "decode s = (case forgiving_base64_decode s of
                 None \<Rightarrow> Inl InvalidCharacterError
               | Some bs \<Rightarrow> Inr (map of_nat bs))"
proof (cases "forgiving_base64_decode s")
  case None
  then show ?thesis by (simp add: decode_def atob_def)
next
  case (Some bs)
  let ?bin = "map of_nat bs :: js_string"
  have f: "fold (\<lambda>i bytes. bytes[i := ucast (?bin ! i)]) [0..<length bs] (replicate (length bs) 0)
          = map ucast ?bin"
    using decode_fold [of "length ?bin" ?bin ucast 0] by simp
  have g: "map ucast ?bin = (map of_nat bs :: uint8array)"
    by (simp add: word_eq_iff_unsigned [where ?'a = nat] unsigned_ucast_eq unsigned_of_nat)
  have "fold (\<lambda>i bytes. bytes[i := ucast (?bin ! i)]) [0..<length bs] (replicate (length bs) 0)
          = (map of_nat bs :: uint8array)"
    using f g by (rule trans)
  then show ?thesis using Some by (simp add: decode_def atob_def del: map_map)
qed

lemma decode_encode: "\<exists>s. encode b = Inr s \<and> decode s = Inr b"
proof -
  have small: "list_all (\<lambda>x. x < 256) (map unat b)"
    by (simp add: list_all_iff unat_byte)
  show ?thesis
    by (simp add: encode_eq decode_eq forgiving_roundtrip [OF small] comp_def)
qed


lemma b64_value_SomeD: "b64_value c = Some v \<Longrightarrow> v < 64 \<and> b64_char v = c"
proof -
  assume "b64_value c = Some v"
  then have "(c, v) \<in> set (zip b64_alphabet [0..<64])"
    unfolding b64_value_def by (rule map_of_SomeD)
  then obtain i where "i < 64" "b64_alphabet ! i = c" "[0..<64] ! i = v"
    by (auto simp add: in_set_zip b64_alphabet_length)
  then show ?thesis by (simp add: b64_char_def)
qed

lemma those_SomeD:
  "those (map f xs) = Some vs \<Longrightarrow> length vs = length xs \<and> (\<forall>i<length xs. f (xs ! i) = Some (vs ! i))"
proof (induction xs arbitrary: vs)
  case Nil
  then show ?case by simp
next
  case (Cons x xs)
  then obtain v vs' where v: "f x = Some v" "those (map f xs) = Some vs'" "vs = v # vs'"
    by (auto split: option.splits)
  with Cons.IH [of vs'] show ?case by (auto simp add: nth_Cons split: nat.splits)
qed

lemma those_b64_SomeD:
  assumes "those (map b64_value d) = Some vs"
  shows "list_all (\<lambda>v. v < 64) vs \<and> map b64_char vs = d"
proof -
  from those_SomeD [OF assms] have l: "length vs = length d"
    and v: "\<And>i. i < length d \<Longrightarrow> b64_value (d ! i) = Some (vs ! i)" by auto
  have "list_all (\<lambda>v. v < 64) vs"
    using l v b64_value_SomeD by (auto simp add: list_all_length)
  moreover have "map b64_char vs = d"
    using l v b64_value_SomeD by (auto simp add: list_eq_iff_nth_eq)
  ultimately show ?thesis by simp
qed

lemma bytes_bound:
  "list_all (\<lambda>v. v < 64) vs \<Longrightarrow> list_all (\<lambda>x. x < 256) (bytes_of vs)"
  by (induction vs rule: bytes_of.induct) auto

lemma canonical_tail_group: "canonical_tail (p # q # r # s # rest) = canonical_tail rest"
proof (cases "rest = []")
  case True
  then show ?thesis by (simp add: canonical_tail_def)
next
  case False
  then have l: "last (p # q # r # s # rest) = last rest" by simp
  have n: "length (p # q # r # s # rest) mod 4 = length rest mod 4" by simp
  show ?thesis unfolding canonical_tail_def l n ..
qed

lemma sextets_of_bytes:
  "list_all (\<lambda>v. v < 64) vs \<Longrightarrow> canonical_tail vs \<Longrightarrow> sextets_of (bytes_of vs) = vs"
proof (induction vs rule: bytes_of.induct)
  case (1 p q r s rest)
  then show ?case by (auto simp add: canonical_tail_group)
qed (auto simp add: canonical_tail_def)

lemma canonical_sextets: "canonical_tail (sextets_of bs)"
proof (induction bs rule: sextets_of.induct)
  case (1 a b c r)
  then show ?case by (simp add: canonical_tail_group)
qed (simp_all add: canonical_tail_def)

lemma length_bytes_of:
  "length (bytes_of vs) = (length vs div 4) * 3 + (length vs mod 4 - 1)"
  by (induction vs rule: bytes_of.induct) auto

lemma remove_padding_split:
  "\<exists>k\<le>2. s = remove_padding s @ replicate k pad_char"
proof (cases "length s mod 4 = 0 \<and> s \<noteq> [] \<and> last s = pad_char")
  case False
  then have "remove_padding s = s" by (auto simp add: remove_padding_def)
  then show ?thesis by (intro exI [of _ 0]) simp
next
  case True
  then have s1: "s = butlast s @ [pad_char]" by (metis append_butlast_last_id)
  have "0 < length s" "4 dvd length s" using True by auto
  then have "length s \<ge> 4" by (simp add: dvd_imp_le)
  then have "length (butlast s) \<noteq> 0" by simp
  then have ne: "butlast s \<noteq> []" by (simp only: length_0_conv not_False_eq_True)
  show ?thesis
  proof (cases "last (butlast s) = pad_char")
    case False
    then have "remove_padding s = butlast s" using True by (simp add: remove_padding_def)
    then show ?thesis using s1 by (intro exI [of _ 1]) simp
  next
    case l: True
    then have "butlast s = butlast (butlast s) @ [pad_char]"
      using ne by (metis append_butlast_last_id)
    then have "s = butlast (butlast s) @ [pad_char, pad_char]" using s1 by (metis append.assoc append_Cons append_Nil)
    moreover have "remove_padding s = butlast (butlast s)" using True l by (simp add: remove_padding_def)
    ultimately show ?thesis by (intro exI [of _ 2]) (simp add: numeral_2_eq_2)
  qed
qed

lemma unat_of_nat_byte: "x < 256 \<Longrightarrow> unat (of_nat x :: 8 word) = x"
  by (simp add: unsigned_of_nat take_bit_nat_eq_self_iff)

lemma encode_decode_canonical:
  assumes "canonical_base64 s"
  shows "\<exists>b. decode s = Inr b \<and> encode b = Inr s"
proof -
  let ?d = "remove_padding s"
  from assms obtain vs where len: "length s mod 4 = 0"
    and th: "those (map b64_value ?d) = Some vs" and tail: "canonical_tail vs"
    by (auto simp add: canonical_base64_def split: option.splits)
  from those_b64_SomeD [OF th] have vs64: "list_all (\<lambda>v. v < 64) vs" and body: "map b64_char vs = ?d"
    by auto
  obtain k where k: "k \<le> 2" "s = ?d @ replicate k pad_char"
    using remove_padding_split by blast
  have lvs: "length vs = length ?d" using body by (metis length_map)
  have "\<forall>c\<in>set (map b64_char vs). \<not> ascii_whitespace c"
    using vs64 b64_char_not_ws by (auto simp add: list_all_iff)
  then have nows_body: "\<forall>c\<in>set ?d. \<not> ascii_whitespace c"
    unfolding body .
  have "filter (\<lambda>c. \<not> ascii_whitespace c) (?d @ replicate k pad_char) = ?d @ replicate k pad_char"
    using nows_body by (auto simp add: filter_id_conv pad_not_ws)
  then have nows: "filter (\<lambda>c. \<not> ascii_whitespace c) s = s" using k(2) by simp
  have n1: "length ?d mod 4 \<noteq> 1"
    using tail lvs by (auto simp add: canonical_tail_def)
  have dec: "forgiving_base64_decode s = Some (bytes_of vs)"
    unfolding forgiving_base64_decode_def nows Let_def using n1 th by simp
  let ?b = "map of_nat (bytes_of vs) :: uint8array"
  have b256: "list_all (\<lambda>x. x < 256) (bytes_of vs)" using vs64 by (rule bytes_bound)
  have ub: "map unat ?b = bytes_of vs"
    using b256 by (auto simp add: list_all_iff unat_of_nat_byte list_eq_iff_nth_eq)
  have kk: "(3 - length (bytes_of vs) mod 3) mod 3 = k"
  proof -
    have m: "(length vs + k) mod 4 = 0" using len k(2) lvs by (metis length_append length_replicate)
    have r: "length (bytes_of vs) mod 3 = (length vs mod 4 - 1) mod 3"
      unfolding length_bytes_of by simp
    consider "length vs mod 4 = 0" | "length vs mod 4 = 2" | "length vs mod 4 = 3"
      using tail unfolding canonical_tail_def by auto
    then show ?thesis
    proof cases
      case 1
      then have "k = 0" using m k(1) by presburger
      then show ?thesis unfolding r 1 by simp
    next
      case 2
      then have "k = 2" using m k(1) by presburger
      then show ?thesis unfolding r 2 by simp
    next
      case 3
      then have "k = 1" using m k(1) by presburger
      then show ?thesis unfolding r 3 by simp
    qed
  qed
  have "forgiving_base64_encode (bytes_of vs) = s"
    unfolding forgiving_base64_encode_def kk sextets_of_bytes [OF vs64 tail] body
    using k(2) by simp
  then have "encode ?b = Inr s" by (simp add: encode_eq ub del: map_map)
  moreover have "decode s = Inr ?b" by (simp add: decode_eq dec)
  ultimately show ?thesis by blast
qed

lemma encode_canonical: "encode b = Inr s \<Longrightarrow> canonical_base64 s"
proof -
  assume "encode b = Inr s"
  then have s: "s = forgiving_base64_encode (map unat b)" by (simp add: encode_eq)
  let ?bs = "map unat b"
  let ?body = "map b64_char (sextets_of ?bs)"
  let ?k = "(3 - length ?bs mod 3) mod 3"
  have small: "list_all (\<lambda>x. x < 256) ?bs"
    by (simp add: list_all_iff unat_byte)
  have sx: "list_all (\<lambda>v. v < 64) (sextets_of ?bs)" using small by (rule sextets_bound)
  have nopad: "list_all (\<lambda>c. c \<noteq> pad_char) ?body"
    using sx by (auto simp add: list_all_iff b64_char_not_pad)
  have len: "(length ?body + ?k) mod 4 = 0"
    by (simp add: length_sextets; presburger)
  have rp: "remove_padding (?body @ replicate ?k pad_char) = ?body"
    using nopad _ len by (rule remove_padding_body) simp
  have "length s mod 4 = 0" using len unfolding s forgiving_base64_encode_def by simp
  moreover have "those (map b64_value (remove_padding s)) = Some (sextets_of ?bs)"
    unfolding s forgiving_base64_encode_def rp using those_b64 [OF sx] .
  ultimately show ?thesis
    by (simp add: canonical_base64_def canonical_sextets)
qed

text \<open>
  C9. The helpers \<open>encode\<close> and \<open>decode\<close> are mutually inverse: decoding the encoding of a byte
  array gives the array back, and encoding the decoding of a valid base64 string gives the
  string back. The first half holds for every byte array. The second half holds for the
  canonical strings, which are exactly the results of \<open>encode\<close>; \<open>decode\<close> also accepts
  strings with whitespace, without padding or with stray low bits, and maps them to the
  bytes of a canonical string.
\<close>

theorem base64_round_trip:
  "(\<exists>s. encode b = Inr s \<and> canonical_base64 s \<and> decode s = Inr b) \<and>
   (canonical_base64 s \<longrightarrow> (\<exists>b. decode s = Inr b \<and> encode b = Inr s))"
proof -
  obtain t where "encode b = Inr t" "decode t = Inr b"
    using decode_encode by blast
  then have "encode b = Inr t \<and> canonical_base64 t \<and> decode t = Inr b"
    using encode_canonical by blast
  then show ?thesis
    using encode_decode_canonical by blast
qed

theorem base64_round_trip_witness:
  "canonical_base64 (js ''YQ=='') \<and>
   (\<exists>b. decode (js ''YQ=='') = Inr b \<and> encode b = Inr (js ''YQ==''))"
proof -
  have "canonical_base64 (js ''YQ=='')"
    by code_simp
  then show ?thesis
    using base64_round_trip [of "[]" "js ''YQ==''"] by blast
qed

text \<open>\<open>YR==\<close> has the length, the alphabet and the padding of base64, and \<open>decode\<close> accepts
  it; its last group carries a stray bit, and the round trip gives \<open>YQ==\<close>.\<close>

theorem base64_round_trip_counterexample:
  "decode (js ''YR=='') = Inr [97] \<and> encode [97] = Inr (js ''YQ=='') \<and>
   js ''YQ=='' \<noteq> js ''YR==''"
  by code_simp
section \<open>Sample payloads\<close>

text \<open>Eight and sixteen characters \<open>A\<close> decode to six and twelve zero bytes, three and six
  silent frames of 1/24000 second.\<close>

lemma decode_six_bytes: "decode (js ''AAAAAAAA'') = Inr [0,0,0,0,0,0]"
  by code_simp

lemma Int16Array_six_bytes: "Int16Array [0,0,0,0,0,0] = Inr [0,0,0]"
  by (simp add: Int16Array_def word_cat_eq)

lemma decodeAudioData_six_bytes: "decodeAudioData [0,0,0,0,0,0] 24000 1 = Inr \<lparr>numberOfChannels = 1, frameCount = 3, sampleRate = 24000, channelData = [[0, 0, 0]]\<rparr>"
  by (simp add: decodeAudioData_def Int16Array_six_bytes createBuffer_def upt_rec)

lemma decodeChunk_three_frames: "decodeChunk (js ''AAAAAAAA'') = Inr \<lparr>numberOfChannels = 1, frameCount = 3, sampleRate = 24000, channelData = [[0, 0, 0]]\<rparr>"
  by (simp only: decodeChunk_def decode_six_bytes decodeAudioData_six_bytes sum.case)

lemma decode_twelve_bytes: "decode (js ''AAAAAAAAAAAAAAAA'') = Inr [0,0,0,0,0,0,0,0,0,0,0,0]"
  by code_simp

lemma Int16Array_twelve_bytes: "Int16Array [0,0,0,0,0,0,0,0,0,0,0,0] = Inr [0,0,0,0,0,0]"
  by (simp add: Int16Array_def word_cat_eq)

lemma decodeAudioData_twelve_bytes: "decodeAudioData [0,0,0,0,0,0,0,0,0,0,0,0] 24000 1 = Inr \<lparr>numberOfChannels = 1, frameCount = 6, sampleRate = 24000, channelData = [[0, 0, 0, 0, 0, 0]]\<rparr>"
  by (simp add: decodeAudioData_def Int16Array_twelve_bytes createBuffer_def upt_rec)

lemma decodeChunk_six_frames: "decodeChunk (js ''AAAAAAAAAAAAAAAA'') = Inr \<lparr>numberOfChannels = 1, frameCount = 6, sampleRate = 24000, channelData = [[0, 0, 0, 0, 0, 0]]\<rparr>"
  by (simp only: decodeChunk_def decode_twelve_bytes decodeAudioData_twelve_bytes sum.case)

lemma duration_three_frames: "duration \<lparr>numberOfChannels = 1, frameCount = 3, sampleRate = 24000, channelData = [[0, 0, 0]]\<rparr> = 1 / 8000"
  by (simp add: duration_def)

lemma duration_six_frames: "duration \<lparr>numberOfChannels = 1, frameCount = 6, sampleRate = 24000, channelData = [[0, 0, 0, 0, 0, 0]]\<rparr> = 1 / 4000"
  by (simp add: duration_def)

section \<open>Scheduling, interruption and stopping of the live session\<close>

lemma duration_nonneg: "0 \<le> duration b"
  by (simp add: duration_def)

lemma schedule_chunk_ok:
  "decodeChunk payload = Inr buffer \<Longrightarrow>
   schedule_chunk now payload s =
     Inr (s\<lparr>nodes_created := Suc (nodes_created s),
            started := started s @ [\<lparr>node_id = nodes_created s, node_buffer = buffer,
                                     start_time = max (nextStartTimeRef s) now\<rparr>],
            nextStartTimeRef := max (nextStartTimeRef s) now + duration buffer,
            sourcesRef := sourcesRef s @ [\<lparr>node_id = nodes_created s, node_buffer = buffer,
                                     start_time = max (nextStartTimeRef s) now\<rparr>]\<rparr>)"
  by (simp add: schedule_chunk_def Let_def)

lemma decodeChunk_empty: "decodeChunk [] = Inl NotSupportedError"
  by code_simp

lemma base64Audio_audio_message: "base64Audio_of (audio_message p) = Inr (Some p)"
  by (simp add: base64Audio_of_def audio_message_def)

lemma not_interrupted_audio_message: "\<not> is_interrupted (audio_message p)"
  by (simp add: is_interrupted_def audio_message_def)

lemma onmessage_audio:
  assumes "decodeChunk payload = Inr buffer"
  shows "onmessage now (audio_message payload) s =
     s\<lparr>nodes_created := Suc (nodes_created s),
            started := started s @ [\<lparr>node_id = nodes_created s, node_buffer = buffer,
                                     start_time = max (nextStartTimeRef s) now\<rparr>],
            nextStartTimeRef := max (nextStartTimeRef s) now + duration buffer,
            sourcesRef := sourcesRef s @ [\<lparr>node_id = nodes_created s, node_buffer = buffer,
                                     start_time = max (nextStartTimeRef s) now\<rparr>]\<rparr>"
proof -
  have "payload \<noteq> []" using assms decodeChunk_empty by auto
  then show ?thesis
    by (simp add: onmessage_def base64Audio_audio_message schedule_chunk_ok [OF assms]
        on_interrupted_def not_interrupted_audio_message)
qed

lemma chunk_nodes_snoc:
  "chunk_nodes first base (bs @ [b]) =
     chunk_nodes first base bs @
       [\<lparr>node_id = first + length bs, node_buffer = b,
         start_time = base + sum_list (map duration bs)\<rparr>]"
  by (simp add: chunk_nodes_def nth_append)

lemma sum_duration_nonneg: "0 \<le> sum_list (map duration bs)"
  by (induction bs) (simp_all add: duration_nonneg)

lemma run_snoc: "assistant_run (evs @ [e]) s = assistant_step e (assistant_run evs s)"
  by (simp add: assistant_run_def)

lemma chunks_run:
  "map decodeChunk payloads = map Inr bs \<Longrightarrow>
   assistant_run (map (\<lambda>p. Message now (audio_message p)) payloads) s =
     s\<lparr>nodes_created := nodes_created s + length bs,
       started := started s @ chunk_nodes (nodes_created s) (max (nextStartTimeRef s) now) bs,
       nextStartTimeRef := (if bs = [] then nextStartTimeRef s
                            else max (nextStartTimeRef s) now + sum_list (map duration bs)),
       sourcesRef := sourcesRef s @ chunk_nodes (nodes_created s) (max (nextStartTimeRef s) now) bs\<rparr>"
proof (induction payloads arbitrary: bs rule: rev_induct)
  case Nil
  then show ?case by (simp add: assistant_run_def chunk_nodes_def)
next
  case (snoc p ps)
  from snoc.prems obtain bs' b where bs: "bs = bs' @ [b]"
    and ps: "map decodeChunk ps = map Inr bs'" and p: "decodeChunk p = Inr b"
    by (cases bs rule: rev_cases) auto
  have m: "max (if bs' = [] then nextStartTimeRef s
                else max (nextStartTimeRef s) now + sum_list (map duration bs')) now
           = max (nextStartTimeRef s) now + sum_list (map duration bs')"
    using sum_duration_nonneg [of bs'] by (cases "bs' = []") auto
  show ?case
    unfolding bs map_append list.map run_snoc snoc.IH [OF ps] assistant_step.simps
      onmessage_audio [OF p] chunk_nodes_snoc
    by (simp add: m duration_nonneg add.assoc)
qed

lemma try_stop_eq:
  "try_stop n s = (if was_started s n then s\<lparr>stopped := stopped s @ [node_id n]\<rparr> else s)"
  by (simp add: try_stop_def node_stop_def was_started_def)

lemma fold_try_stop:
  "fold try_stop ns s = s\<lparr>stopped := stopped s @ map node_id (filter (was_started s) ns)\<rparr>"
proof (induction ns arbitrary: s)
  case Nil
  then show ?case by simp
next
  case (Cons n ns)
  have w: "was_started (s\<lparr>stopped := x\<rparr>) = was_started s" for x
    by (simp add: was_started_def)
  show ?case
  proof (cases "was_started s n")
    case True
    then have "try_stop n s = s\<lparr>stopped := stopped s @ [node_id n]\<rparr>"
      by (simp add: try_stop_eq)
    then have "fold try_stop (n # ns) s = fold try_stop ns (s\<lparr>stopped := stopped s @ [node_id n]\<rparr>)"
      by simp
    then show ?thesis by (simp add: Cons.IH w True)
  next
    case False
    then have "try_stop n s = s" by (simp add: try_stop_eq)
    then have "fold try_stop (n # ns) s = fold try_stop ns s" by simp
    then show ?thesis by (simp add: Cons.IH False)
  qed
qed

lemma stop_all_sources_eq:
  "stop_all_sources s =
     s\<lparr>stopped := stopped s @ map node_id (filter (was_started s) (sourcesRef s)),
       sourcesRef := [], nextStartTimeRef := 0\<rparr>"
  by (simp add: stop_all_sources_def fold_try_stop)

lemma stopSession_idem: "stopSession c2 (stopSession c1 s) = stopSession c1 s"
  by (simp add: stopSession_def stop_all_sources_eq Let_def split: option.splits)

lemma stopSession_fields:
  "\<not> isActive (stopSession c s) \<and> sessionRef (stopSession c s) = None \<and>
   sourcesRef (stopSession c s) = [] \<and> nextStartTimeRef (stopSession c s) = 0 \<and>
   console (stopSession c s) = console s \<and> rejections (stopSession c s) = rejections s"
  by (simp add: stopSession_def stop_all_sources_eq Let_def split: option.splits)

lemma no_overlap_append:
  "no_overlap (xs @ [n]) =
     (no_overlap xs \<and> list_all (\<lambda>m. start_time m + duration (node_buffer m) \<le> start_time n) xs)"
  by (induction xs) auto

lemma no_overlap_filter: "no_overlap xs \<Longrightarrow> no_overlap (filter P xs)"
  by (induction xs) (auto simp add: list_all_iff)

lemma tracked_ok_stop_all: "tracked_ok (stop_all_sources s)"
  by (simp add: tracked_ok_def stop_all_sources_eq)

lemma tracked_ok_schedule:
  assumes "tracked_ok s" "schedule_chunk now p s = Inr s'"
  shows "tracked_ok s'"
proof -
  from assms(2) obtain b where b: "decodeChunk p = Inr b"
    by (auto simp add: schedule_chunk_def split: sum.splits)
  let ?n = "\<lparr>node_id = nodes_created s, node_buffer = b, start_time = max (nextStartTimeRef s) now\<rparr>"
  have s': "s' = s\<lparr>nodes_created := Suc (nodes_created s), started := started s @ [?n],
            nextStartTimeRef := max (nextStartTimeRef s) now + duration b,
            sourcesRef := sourcesRef s @ [?n]\<rparr>"
    using assms(2) unfolding schedule_chunk_ok [OF b] by simp
  have d: "0 \<le> duration b" by (rule duration_nonneg)
  show ?thesis using assms(1) d unfolding s' tracked_ok_def
    by (auto simp add: no_overlap_append was_started_def list_all_iff)
qed

lemma tracked_ok_on_interrupted: "tracked_ok s \<Longrightarrow> tracked_ok (on_interrupted msg s)"
  by (simp add: on_interrupted_def tracked_ok_stop_all)

lemma tracked_ok_onmessage: "tracked_ok s \<Longrightarrow> tracked_ok (onmessage now msg s)"
proof -
  assume t: "tracked_ok s"
  have r: "tracked_ok (reject e s)" for e
    using t by (simp add: tracked_ok_def reject_def was_started_def)
  have r2: "tracked_ok (reject e (s\<lparr>nextStartTimeRef := max (nextStartTimeRef s) now\<rparr>))" for e
    using t by (auto simp add: tracked_ok_def reject_def was_started_def list_all_iff)
  show ?thesis
    unfolding onmessage_def
    using t r r2 tracked_ok_schedule [OF t] tracked_ok_on_interrupted
    by (auto split: sum.splits option.splits)
qed

lemma tracked_ok_step: "tracked_ok s \<Longrightarrow> tracked_ok (assistant_step ev s)"
proof (cases ev)
  case (Click outcome c)
  assume t: "tracked_ok s"
  have "tracked_ok (stopSession c s)"
    by (simp add: tracked_ok_def stopSession_def stop_all_sources_eq Let_def split: option.splits)
  moreover have "tracked_ok (startSession outcome s)"
    using t by (cases outcome) (auto simp add: tracked_ok_def startSession_def Let_def was_started_def)
  ultimately show ?thesis using Click by simp
next
  case (Message now msg)
  assume "tracked_ok s"
  then show ?thesis using Message by (simp add: tracked_ok_onmessage)
next
  case (Ended n)
  assume "tracked_ok s"
  then show ?thesis using Ended
    by (auto simp add: tracked_ok_def ended_def no_overlap_filter was_started_def list_all_iff)
next
  case Close
  assume "tracked_ok s"
  then show ?thesis using Close by (simp add: tracked_ok_def onclose_def was_started_def)
next
  case (Error e)
  assume "tracked_ok s"
  then show ?thesis using Error by (simp add: tracked_ok_def onerror_def was_started_def)
qed

lemma tracked_ok_run: "tracked_ok s \<Longrightarrow> tracked_ok (assistant_run evs s)"
  unfolding assistant_run_def
  by (induction evs arbitrary: s) (simp_all add: tracked_ok_step)

lemma tracked_ok_mounted: "tracked_ok mounted"
  by (simp add: tracked_ok_def mounted_def)

lemma onmessage_chunk:
  assumes "base64Audio_of msg = Inr (Some payload)" "decodeChunk payload = Inr buffer"
  shows "onmessage now msg s =
     on_interrupted msg
       (s\<lparr>nodes_created := Suc (nodes_created s),
          started := started s @ [\<lparr>node_id = nodes_created s, node_buffer = buffer,
                                   start_time = max (nextStartTimeRef s) now\<rparr>],
          nextStartTimeRef := max (nextStartTimeRef s) now + duration buffer,
          sourcesRef := sourcesRef s @ [\<lparr>node_id = nodes_created s, node_buffer = buffer,
                                   start_time = max (nextStartTimeRef s) now\<rparr>]\<rparr>)"
proof -
  have "payload \<noteq> []" using assms(2) decodeChunk_empty by auto
  then show ?thesis
    by (simp add: onmessage_def assms(1) schedule_chunk_ok [OF assms(2)])
qed

lemma started_on_interrupted: "started (on_interrupted msg s) = started s"
  by (simp add: on_interrupted_def stop_all_sources_eq)

text \<open>
  C1. When \<open>onmessage\<close> handles a message with an audio payload that decodes, the chunk is
  started at the maximum of \<open>nextStartTimeRef\<close> and the clock, and, unless the same message
  is an interruption, \<open>nextStartTimeRef\<close> then is that start time plus the duration of the
  clip. For chunks that arrive at one clock time with nothing in between, the chunk at
  position \<open>i\<close> starts at the start time of the first plus the durations of the chunks before
  it; from a fresh component at clock 0 that is the sum of those durations.
\<close>

theorem chunk_start_times:
  "(base64Audio_of msg = Inr (Some payload) \<and> decodeChunk payload = Inr buffer \<longrightarrow>
      (\<exists>node. started (onmessage now msg s) = started s @ [node] \<and>
              node_buffer node = buffer \<and>
              start_time node = max (nextStartTimeRef s) now \<and>
              (\<not> is_interrupted msg \<longrightarrow>
                 nextStartTimeRef (onmessage now msg s) = start_time node + duration buffer \<and>
                 sourcesRef (onmessage now msg s) = sourcesRef s @ [node]))) \<and>
   (map decodeChunk payloads = map Inr buffers \<longrightarrow>
      (\<forall>i<length buffers.
         start_time (started (assistant_run (map (\<lambda>p. Message now (audio_message p)) payloads) s)
                       ! (length (started s) + i))
           = max (nextStartTimeRef s) now + sum_list (map duration (take i buffers))))"
proof (intro conjI impI)
  assume a: "base64Audio_of msg = Inr (Some payload) \<and> decodeChunk payload = Inr buffer"
  let ?node = "\<lparr>node_id = nodes_created s, node_buffer = buffer,
                 start_time = max (nextStartTimeRef s) now\<rparr>"
  have m: "onmessage now msg s =
     on_interrupted msg
       (s\<lparr>nodes_created := Suc (nodes_created s), started := started s @ [?node],
          nextStartTimeRef := max (nextStartTimeRef s) now + duration buffer,
          sourcesRef := sourcesRef s @ [?node]\<rparr>)"
    using a onmessage_chunk by blast
  have "started (onmessage now msg s) = started s @ [?node]"
    unfolding m started_on_interrupted by simp
  moreover have "\<not> is_interrupted msg \<longrightarrow>
       nextStartTimeRef (onmessage now msg s) = start_time ?node + duration buffer \<and>
       sourcesRef (onmessage now msg s) = sourcesRef s @ [?node]"
    unfolding m by (simp add: on_interrupted_def)
  ultimately show "\<exists>node. started (onmessage now msg s) = started s @ [node] \<and>
              node_buffer node = buffer \<and>
              start_time node = max (nextStartTimeRef s) now \<and>
              (\<not> is_interrupted msg \<longrightarrow>
                 nextStartTimeRef (onmessage now msg s) = start_time node + duration buffer \<and>
                 sourcesRef (onmessage now msg s) = sourcesRef s @ [node])"
    by (intro exI [of _ ?node]) simp
next
  assume d: "map decodeChunk payloads = map Inr buffers"
  show "\<forall>i<length buffers.
         start_time (started (assistant_run (map (\<lambda>p. Message now (audio_message p)) payloads) s)
                       ! (length (started s) + i))
           = max (nextStartTimeRef s) now + sum_list (map duration (take i buffers))"
    unfolding chunks_run [OF d] by (simp add: chunk_nodes_def)
qed

theorem chunk_start_times_witness:
  "map decodeChunk [js ''AAAAAAAA'', js ''AAAAAAAAAAAAAAAA''] =
     map Inr [\<lparr>numberOfChannels = 1, frameCount = 3, sampleRate = 24000, channelData = [[0, 0, 0]]\<rparr>,
              \<lparr>numberOfChannels = 1, frameCount = 6, sampleRate = 24000, channelData = [[0, 0, 0, 0, 0, 0]]\<rparr>] \<and>
   start_time (started (assistant_run (map (\<lambda>p. Message 0 (audio_message p))
                                         [js ''AAAAAAAA'', js ''AAAAAAAAAAAAAAAA'']) mounted) ! 1)
     = 1 / 8000 \<and>
   base64Audio_of (audio_message (js ''AAAAAAAA'')) = Inr (Some (js ''AAAAAAAA'')) \<and>
   \<not> is_interrupted (audio_message (js ''AAAAAAAA'')) \<and>
   nextStartTimeRef (onmessage 0 (audio_message (js ''AAAAAAAA'')) mounted) = 1 / 8000"
proof -
  let ?b3 = "\<lparr>numberOfChannels = 1, frameCount = 3, sampleRate = 24000, channelData = [[0, 0, 0]]\<rparr>"
  let ?b6 = "\<lparr>numberOfChannels = 1, frameCount = 6, sampleRate = 24000, channelData = [[0, 0, 0, 0, 0, 0]]\<rparr>"
  let ?run = "assistant_run (map (\<lambda>p. Message 0 (audio_message p))
                [js ''AAAAAAAA'', js ''AAAAAAAAAAAAAAAA'']) mounted"
  let ?m = "audio_message (js ''AAAAAAAA'')"
  note t = chunk_start_times [of ?m "js ''AAAAAAAA''" ?b3 0 mounted
      "[js ''AAAAAAAA'', js ''AAAAAAAAAAAAAAAA'']" "[?b3, ?b6]"]
  have d: "map decodeChunk [js ''AAAAAAAA'', js ''AAAAAAAAAAAAAAAA''] = map Inr [?b3, ?b6]"
    by (simp only: list.map decodeChunk_three_frames decodeChunk_six_frames)
  have a: "base64Audio_of ?m = Inr (Some (js ''AAAAAAAA''))"
    by (rule base64Audio_audio_message)
  have n: "\<not> is_interrupted ?m"
    by (rule not_interrupted_audio_message)
  have "\<forall>i<length [?b3, ?b6].
          start_time (started ?run ! (length (started mounted) + i))
            = max (nextStartTimeRef mounted) 0 + sum_list (map duration (take i [?b3, ?b6]))"
    using t [THEN conjunct2, THEN mp, OF d] .
  then have "start_time (started ?run ! (length (started mounted) + 1))
            = max (nextStartTimeRef mounted) 0 + sum_list (map duration (take 1 [?b3, ?b6]))"
    by (elim allE [of _ 1]) simp
  then have second: "start_time (started ?run ! 1) = 1 / 8000"
    by (simp add: mounted_def duration_def)
  have "\<exists>node. started (onmessage 0 ?m mounted) = started mounted @ [node] \<and>
              node_buffer node = ?b3 \<and>
              start_time node = max (nextStartTimeRef mounted) 0 \<and>
              (\<not> is_interrupted ?m \<longrightarrow>
                 nextStartTimeRef (onmessage 0 ?m mounted) = start_time node + duration ?b3 \<and>
                 sourcesRef (onmessage 0 ?m mounted) = sourcesRef mounted @ [node])"
    using t [THEN conjunct1, THEN mp, OF conjI, OF a decodeChunk_three_frames] .
  then have "nextStartTimeRef (onmessage 0 ?m mounted)
               = max (nextStartTimeRef mounted) 0 + duration ?b3"
    using n by auto
  then have first: "nextStartTimeRef (onmessage 0 ?m mounted) = 1 / 8000"
    by (simp add: mounted_def duration_def)
  show ?thesis using d second a n first by (intro conjI)
qed

lemma reject_grows: "rejections (reject e s) \<noteq> rejections s"
  by (simp add: reject_def)

text \<open>The handler returns, with nothing thrown, exactly when the audio part is handled.\<close>

lemma handled_iff_returns:
  "audio_part_handled msg \<longleftrightarrow> rejections (onmessage now msg s) = rejections s"
proof (cases "base64Audio_of msg")
  case (Inl e)
  then show ?thesis
    by (simp add: audio_part_handled_def onmessage_def reject_def)
next
  case (Inr a)
  have i: "rejections (on_interrupted msg x) = rejections x" for x
    by (simp add: on_interrupted_def stop_all_sources_eq)
  show ?thesis
  proof (cases a)
    case None
    then show ?thesis using Inr by (simp add: audio_part_handled_def onmessage_def i)
  next
    case (Some p)
    show ?thesis
    proof (cases "p = []")
      case True
      then show ?thesis using Inr Some by (simp add: audio_part_handled_def onmessage_def i)
    next
      case False
      show ?thesis
      proof (cases "decodeChunk p")
        case (Inl e)
        then show ?thesis using Inr Some False
          by (simp add: audio_part_handled_def onmessage_def schedule_chunk_def reject_def)
      next
        case b: (Inr b)
        then show ?thesis using Inr Some False
          by (simp add: audio_part_handled_def onmessage_def schedule_chunk_ok [OF b] i)
      qed
    qed
  qed
qed

text \<open>A handler that returns normally is the interruption block, after at most one scheduled
  chunk.\<close>

lemma onmessage_returns:
  assumes "rejections (onmessage now msg s) = rejections s"
  shows "onmessage now msg s = on_interrupted msg s \<or>
         (\<exists>p s1. schedule_chunk now p s = Inr s1 \<and> onmessage now msg s = on_interrupted msg s1)"
proof (cases "base64Audio_of msg")
  case (Inl e)
  then have "onmessage now msg s = reject e s" by (simp add: onmessage_def)
  then show ?thesis using assms reject_grows by simp
next
  case (Inr a)
  show ?thesis
  proof (cases a)
    case None
    then show ?thesis using Inr by (simp add: onmessage_def)
  next
    case (Some p)
    show ?thesis
    proof (cases "p = []")
      case True
      then show ?thesis using Inr Some by (simp add: onmessage_def)
    next
      case False
      show ?thesis
      proof (cases "schedule_chunk now p s")
        case (Inl e)
        then have "onmessage now msg s
            = reject e (s\<lparr>nextStartTimeRef := max (nextStartTimeRef s) now\<rparr>)"
          using Inr Some False by (simp add: onmessage_def)
        then have "rejections (onmessage now msg s) = rejections s @ [e]"
          by (simp add: reject_def)
        then show ?thesis using assms by simp
      next
        case s1: (Inr s1)
        then have "onmessage now msg s = on_interrupted msg s1"
          using Inr Some False by (simp add: onmessage_def)
        then show ?thesis using s1 by blast
      qed
    qed
  qed
qed

lemma stop_all_stopped:
  "list_all (was_started s) (sourcesRef s) \<Longrightarrow>
   stopped (stop_all_sources s) = stopped s @ map node_id (sourcesRef s)"
  by (simp add: stop_all_sources_eq list_all_iff)

lemma schedule_keeps_tracked:
  assumes "schedule_chunk now p s = Inr s1"
  shows "set (sourcesRef s) \<subseteq> set (sourcesRef s1) \<and> stopped s1 = stopped s"
  using assms by (auto simp add: schedule_chunk_def Let_def split: sum.splits)

lemma interrupted_clears:
  assumes t: "tracked_ok s" and i: "is_interrupted msg"
    and r: "rejections (onmessage now msg s) = rejections s"
  shows "sourcesRef (onmessage now msg s) = [] \<and> nextStartTimeRef (onmessage now msg s) = 0 \<and>
         node_id ` set (sourcesRef s) \<subseteq> set (stopped (onmessage now msg s))"
proof -
  from onmessage_returns [OF r]
  consider "onmessage now msg s = stop_all_sources s"
    | p s1 where "schedule_chunk now p s = Inr s1" "onmessage now msg s = stop_all_sources s1"
    using i by (auto simp add: on_interrupted_def)
  then show ?thesis
  proof cases
    case 1
    have "list_all (was_started s) (sourcesRef s)" using t by (simp add: tracked_ok_def)
    then show ?thesis unfolding 1 using stop_all_stopped [of s]
      by (simp add: stop_all_sources_eq)
  next
    case 2
    have "tracked_ok s1" using t 2(1) by (rule tracked_ok_schedule)
    then have "list_all (was_started s1) (sourcesRef s1)" by (simp add: tracked_ok_def)
    then have "stopped (stop_all_sources s1) = stopped s1 @ map node_id (sourcesRef s1)"
      by (rule stop_all_stopped)
    moreover have "set (sourcesRef s) \<subseteq> set (sourcesRef s1)"
      using schedule_keeps_tracked [OF 2(1)] by simp
    ultimately show ?thesis unfolding 2(2)
      by (auto simp add: stop_all_sources_eq)
  qed
qed

lemma onmessage_interrupt: "onmessage now interrupt_message s = stop_all_sources s"
  by (simp add: onmessage_def base64Audio_of_def interrupt_message_def on_interrupted_def
      is_interrupted_def)

lemma is_interrupted_interrupt_message: "is_interrupted interrupt_message"
  by (simp add: interrupt_message_def is_interrupted_def)

lemma after_tracked_run:
  "assistant_run tracked_run mounted =
   \<lparr>isActive = True, sessionRef = Some 1, audioContextRef = Some 1,
    nextStartTimeRef = 1 / 8000,
    sourcesRef = [\<lparr>node_id = 0, node_buffer = \<lparr>numberOfChannels = 1, frameCount = 3, sampleRate = 24000, channelData = [[0, 0, 0]]\<rparr>, start_time = 0\<rparr>],
    contexts_created = 2, nodes_created = 1,
    started = [\<lparr>node_id = 0, node_buffer = \<lparr>numberOfChannels = 1, frameCount = 3, sampleRate = 24000, channelData = [[0, 0, 0]]\<rparr>, start_time = 0\<rparr>],
    stopped = [], closed = [], console = [], rejections = []\<rparr>"
  by (simp add: tracked_run_def assistant_run_def mounted_def startSession_def Let_def
      onmessage_audio [OF decodeChunk_three_frames] duration_three_frames del: One_nat_def)

lemma decode_one_byte: "decode (js ''AA=='') = Inr [0]"
  by code_simp

lemma decodeChunk_one_byte: "decodeChunk (js ''AA=='') = Inl RangeError"
  by (simp add: decodeChunk_def decode_one_byte decodeAudioData_def Int16Array_def)

lemma interrupt_without_parts_rejects:
  "onmessage now interrupt_without_parts s = reject TypeError s"
  by (simp add: onmessage_def base64Audio_of_def interrupt_without_parts_def)

lemma interrupt_with_odd_audio_rejects:
  "onmessage now interrupt_with_odd_audio s
     = reject RangeError (s\<lparr>nextStartTimeRef := max (nextStartTimeRef s) now\<rparr>)"
proof -
  have "js ''AA=='' \<noteq> []" by (simp add: js_def)
  then show ?thesis
    by (simp add: onmessage_def base64Audio_of_def interrupt_with_odd_audio_def
        schedule_chunk_def decodeChunk_one_byte)
qed

lemma is_interrupted_failing:
  "is_interrupted interrupt_without_parts \<and> is_interrupted interrupt_with_odd_audio"
  by (simp add: is_interrupted_def interrupt_without_parts_def interrupt_with_odd_audio_def)

text \<open>
  C2. When \<open>onmessage\<close> handles, in a reachable state, an interruption whose audio part, if
  the message has one, is read and decoded with nothing thrown, the handler returns, every
  source that was tracked has received \<open>stop()\<close>, the tracked set is empty and
  \<open>nextStartTimeRef\<close> is 0; a chunk that arrives next, at clock \<open>later\<close>, starts at \<open>later\<close>,
  which is 0 relative to the clock.
\<close>

theorem interruption_resets_timeline:
  assumes "is_interrupted msg" and "audio_part_handled msg"
  shows "rejections (onmessage now msg (assistant_run evs mounted))
           = rejections (assistant_run evs mounted) \<and>
         sourcesRef (onmessage now msg (assistant_run evs mounted)) = [] \<and>
         nextStartTimeRef (onmessage now msg (assistant_run evs mounted)) = 0 \<and>
         node_id ` set (sourcesRef (assistant_run evs mounted))
           \<subseteq> set (stopped (onmessage now msg (assistant_run evs mounted))) \<and>
         (0 \<le> later \<and> decodeChunk payload = Inr buffer \<longrightarrow>
            (\<exists>node. sourcesRef (onmessage later (audio_message payload)
                                  (onmessage now msg (assistant_run evs mounted))) = [node] \<and>
                    node_buffer node = buffer \<and> start_time node - later = 0))"
proof -
  let ?s = "assistant_run evs mounted"
  let ?s' = "onmessage now msg ?s"
  have t: "tracked_ok ?s" using tracked_ok_mounted by (rule tracked_ok_run)
  have r: "rejections ?s' = rejections ?s"
    using assms(2) handled_iff_returns [of msg now ?s] by simp
  note c = interrupted_clears [OF t assms(1) r]
  have "0 \<le> later \<and> decodeChunk payload = Inr buffer \<longrightarrow>
            (\<exists>node. sourcesRef (onmessage later (audio_message payload) ?s') = [node] \<and>
                    node_buffer node = buffer \<and> start_time node - later = 0)"
  proof
    assume a: "0 \<le> later \<and> decodeChunk payload = Inr buffer"
    then have d: "decodeChunk payload = Inr buffer" by simp
    let ?node = "\<lparr>node_id = nodes_created ?s', node_buffer = buffer, start_time = later\<rparr>"
    have "sourcesRef (onmessage later (audio_message payload) ?s') = [?node]"
      unfolding onmessage_audio [OF d] using c a by simp
    then show "\<exists>node. sourcesRef (onmessage later (audio_message payload) ?s') = [node] \<and>
                    node_buffer node = buffer \<and> start_time node - later = 0"
      by (intro exI [of _ ?node]) simp
  qed
  then show ?thesis using c r by blast
qed

theorem interruption_resets_timeline_witness:
  "is_interrupted interrupt_message \<and>
   audio_part_handled interrupt_message \<and>
   length (sourcesRef (assistant_run tracked_run mounted)) = 1 \<and>
   sourcesRef (onmessage 1 interrupt_message (assistant_run tracked_run mounted)) = [] \<and>
   nextStartTimeRef (onmessage 1 interrupt_message (assistant_run tracked_run mounted)) = 0 \<and>
   stopped (onmessage 1 interrupt_message (assistant_run tracked_run mounted)) = [0] \<and>
   (\<exists>node. sourcesRef (onmessage 2 (audio_message (js ''AAAAAAAA''))
                         (onmessage 1 interrupt_message (assistant_run tracked_run mounted)))
             = [node] \<and> start_time node = 2)"
proof -
  let ?b3 = "\<lparr>numberOfChannels = 1, frameCount = 3, sampleRate = 24000, channelData = [[0, 0, 0]]\<rparr>"
  let ?s = "assistant_run tracked_run mounted"
  have h: "audio_part_handled interrupt_message"
    by (simp add: audio_part_handled_def base64Audio_of_def interrupt_message_def)
  have l: "length (sourcesRef ?s) = 1"
    unfolding after_tracked_run by simp
  have p: "stopped (onmessage 1 interrupt_message ?s) = [0]"
    unfolding after_tracked_run
    by (simp add: onmessage_interrupt stop_all_sources_eq was_started_def)
  note t = interruption_resets_timeline [OF is_interrupted_interrupt_message h,
      of 1 tracked_run 2 "js ''AAAAAAAA''" ?b3]
  show ?thesis
    using t is_interrupted_interrupt_message h l p decodeChunk_three_frames by auto
qed

text \<open>
  A chunk is tracked and playing. An interruption arrives whose \<open>modelTurn\<close> has no \<open>parts\<close>,
  or whose payload is one byte: the handler throws before its interruption branch, the
  chunk stays tracked, nothing is stopped, and \<open>nextStartTimeRef\<close> is not 0.
\<close>

theorem interruption_lost_counterexample:
  "is_interrupted interrupt_without_parts \<and>
   is_interrupted interrupt_with_odd_audio \<and>
   length (sourcesRef (assistant_run tracked_run mounted)) = 1 \<and>
   sourcesRef (onmessage 6 interrupt_without_parts (assistant_run tracked_run mounted))
     = sourcesRef (assistant_run tracked_run mounted) \<and>
   stopped (onmessage 6 interrupt_without_parts (assistant_run tracked_run mounted)) = [] \<and>
   nextStartTimeRef (onmessage 6 interrupt_without_parts (assistant_run tracked_run mounted))
     = 1 / 8000 \<and>
   rejections (onmessage 6 interrupt_without_parts (assistant_run tracked_run mounted))
     = [TypeError] \<and>
   sourcesRef (onmessage 6 interrupt_with_odd_audio (assistant_run tracked_run mounted))
     = sourcesRef (assistant_run tracked_run mounted) \<and>
   stopped (onmessage 6 interrupt_with_odd_audio (assistant_run tracked_run mounted)) = [] \<and>
   nextStartTimeRef (onmessage 6 interrupt_with_odd_audio (assistant_run tracked_run mounted))
     = 6 \<and>
   rejections (onmessage 6 interrupt_with_odd_audio (assistant_run tracked_run mounted))
     = [RangeError]"
  unfolding interrupt_without_parts_rejects interrupt_with_odd_audio_rejects after_tracked_run
  using is_interrupted_failing by (simp add: reject_def)

lemma stopAudio_idem: "stopAudio (stopAudio a) = stopAudio a"
  by (simp add: stopAudio_def clip_stop_def Let_def split: option.splits)

text \<open>
  C5. \<open>stopAudio\<close> and \<open>stopSession\<close> are idempotent in every state: a second call changes
  nothing, not even the record of \<open>stop\<close> and \<open>close\<close> calls; after the first call the playing
  flag (\<open>isPlaying\<close>, \<open>isActive\<close>) is false and the token (\<open>activeAudioQuestionIdRef\<close>,
  \<open>sessionRef\<close>) is cleared; nothing is printed and nothing is thrown.
\<close>

theorem stop_idempotent:
  "stopAudio (stopAudio a) = stopAudio a \<and>
   \<not> isPlaying (stopAudio a) \<and>
   activeAudioQuestionIdRef (stopAudio a) = None \<and>
   audioSourceRef (stopAudio a) = None \<and>
   console_App (stopAudio a) = console_App a \<and>
   stopSession c2 (stopSession c1 s) = stopSession c1 s \<and>
   \<not> isActive (stopSession c1 s) \<and>
   sessionRef (stopSession c1 s) = None \<and>
   sourcesRef (stopSession c1 s) = [] \<and>
   nextStartTimeRef (stopSession c1 s) = 0 \<and>
   console (stopSession c1 s) = console s \<and>
   rejections (stopSession c1 s) = rejections s"
proof -
  have "\<not> isPlaying (stopAudio a) \<and> activeAudioQuestionIdRef (stopAudio a) = None \<and>
        audioSourceRef (stopAudio a) = None \<and> console_App (stopAudio a) = console_App a"
    by (simp add: stopAudio_def clip_stop_def Let_def split: option.splits)
  then show ?thesis
    using stopAudio_idem [of a] stopSession_idem [of c2 c1 s] stopSession_fields [of c1 s]
    by simp
qed

text \<open>
  C6. When \<open>startSession\<close> fails before the session handle arrives, the error is printed and
  \<open>isActive\<close>, \<open>sessionRef\<close>, \<open>nextStartTimeRef\<close> and \<open>sourcesRef\<close> are what they were; from
  the button, which calls \<open>startSession\<close> only when \<open>isActive\<close> is false, the component stays
  idle. Of the refs only \<open>audioContextRef\<close>, which nothing reads, holds a new context when
  the failure comes after both contexts were created.
\<close>

theorem failed_start_stays_idle:
  assumes "how = SetupThrows e \<or> how = OutputContextThrows e \<or> how = MediaRejected e
             \<or> how = ConnectRejected e"
  shows "isActive (startSession how s) = isActive s \<and>
         sessionRef (startSession how s) = sessionRef s \<and>
         nextStartTimeRef (startSession how s) = nextStartTimeRef s \<and>
         sourcesRef (startSession how s) = sourcesRef s \<and>
         started (startSession how s) = started s \<and>
         stopped (startSession how s) = stopped s \<and>
         console (startSession how s) = console s @ [(start_failed, e)] \<and>
         rejections (startSession how s) = rejections s \<and>
         (\<not> isActive s \<longrightarrow> \<not> isActive (assistant_step (Click how c) s))"
  using assms by (auto simp add: startSession_def Let_def)

theorem failed_start_stays_idle_witness:
  "\<not> isActive mounted \<and>
   \<not> isActive (assistant_step (Click (ConnectRejected (Failure (js ''closed''))) None) mounted) \<and>
   sessionRef (startSession (ConnectRejected (Failure (js ''closed''))) mounted) = None \<and>
   console (startSession (ConnectRejected (Failure (js ''closed''))) mounted)
     = [(start_failed, Failure (js ''closed''))]"
  using failed_start_stays_idle [of "ConnectRejected (Failure (js ''closed''))"
      "Failure (js ''closed'')" mounted None]
  by (simp add: mounted_def)

text \<open>
  C4. \<open>stopSession\<close> leaves the tracked set empty, so a session started after it starts with
  none, and so does every interruption whose audio part is handled. The clips tracked in a
  reachable state do not overlap, and of two chunks handled one after the other the second
  starts no earlier than the start of the first plus its duration.
\<close>

theorem tracked_sources_cleared_and_disjoint:
  "sourcesRef (stopSession c s) = [] \<and>
   sourcesRef (startSession how (stopSession c s)) = [] \<and>
   (is_interrupted msg \<and> audio_part_handled msg \<longrightarrow>
      sourcesRef (onmessage now msg s) = []) \<and>
   no_overlap (sourcesRef (assistant_run evs mounted)) \<and>
   (decodeChunk p1 = Inr b1 \<and> decodeChunk p2 = Inr b2 \<longrightarrow>
      start_time (last (started (onmessage t1 (audio_message p1) s))) + duration b1
        \<le> start_time (last (started (onmessage t2 (audio_message p2)
                                        (onmessage t1 (audio_message p1) s)))))"
proof -
  have a: "sourcesRef (stopSession c s) = []"
    using stopSession_fields [of c s] by simp
  have b: "sourcesRef (startSession how (stopSession c s)) = []"
    using a by (cases how) (simp_all add: startSession_def Let_def)
  have i: "is_interrupted msg \<and> audio_part_handled msg \<longrightarrow>
      sourcesRef (onmessage now msg s) = []"
  proof
    assume h: "is_interrupted msg \<and> audio_part_handled msg"
    then have "rejections (onmessage now msg s) = rejections s"
      using handled_iff_returns [of msg now s] by simp
    then have "onmessage now msg s = stop_all_sources s \<or>
         (\<exists>p s1. schedule_chunk now p s = Inr s1 \<and> onmessage now msg s = stop_all_sources s1)"
      using h onmessage_returns [of now msg s] by (simp add: on_interrupted_def)
    then show "sourcesRef (onmessage now msg s) = []"
      by (auto simp add: stop_all_sources_eq)
  qed
  have n: "no_overlap (sourcesRef (assistant_run evs mounted))"
    using tracked_ok_run [OF tracked_ok_mounted, of evs] by (simp add: tracked_ok_def)
  have d: "decodeChunk p1 = Inr b1 \<and> decodeChunk p2 = Inr b2 \<longrightarrow>
      start_time (last (started (onmessage t1 (audio_message p1) s))) + duration b1
        \<le> start_time (last (started (onmessage t2 (audio_message p2)
                                        (onmessage t1 (audio_message p1) s))))"
  proof
    assume h: "decodeChunk p1 = Inr b1 \<and> decodeChunk p2 = Inr b2"
    then have d1: "decodeChunk p1 = Inr b1" and d2: "decodeChunk p2 = Inr b2" by simp_all
    show "start_time (last (started (onmessage t1 (audio_message p1) s))) + duration b1
        \<le> start_time (last (started (onmessage t2 (audio_message p2)
                                        (onmessage t1 (audio_message p1) s))))"
      unfolding onmessage_audio [OF d2] onmessage_audio [OF d1] by simp
  qed
  show ?thesis using a b i n d by simp
qed

theorem tracked_sources_cleared_and_disjoint_witness:
  "is_interrupted interrupt_message \<and>
   audio_part_handled interrupt_message \<and>
   length (sourcesRef (assistant_run tracked_run mounted)) = 1 \<and>
   sourcesRef (onmessage 1 interrupt_message (assistant_run tracked_run mounted)) = [] \<and>
   decodeChunk (js ''AAAAAAAA'') =
     Inr \<lparr>numberOfChannels = 1, frameCount = 3, sampleRate = 24000, channelData = [[0, 0, 0]]\<rparr> \<and>
   start_time (last (started (onmessage 0 (audio_message (js ''AAAAAAAA'')) mounted))) + 1 / 8000
     \<le> start_time (last (started (onmessage 0 (audio_message (js ''AAAAAAAA''))
                                     (onmessage 0 (audio_message (js ''AAAAAAAA'')) mounted))))"
proof -
  let ?b3 = "\<lparr>numberOfChannels = 1, frameCount = 3, sampleRate = 24000, channelData = [[0, 0, 0]]\<rparr>"
  let ?s = "assistant_run tracked_run mounted"
  have h: "audio_part_handled interrupt_message"
    by (simp add: audio_part_handled_def base64Audio_of_def interrupt_message_def)
  have l: "length (sourcesRef ?s) = 1"
    unfolding after_tracked_run by simp
  have c: "sourcesRef (onmessage 1 interrupt_message ?s) = []"
    using tracked_sources_cleared_and_disjoint [of None ?s "Connected 1" interrupt_message 1 "[]"
        "js ''AAAAAAAA''" ?b3 "js ''AAAAAAAA''" ?b3 0 0]
      is_interrupted_interrupt_message h by blast
  have o: "start_time (last (started (onmessage 0 (audio_message (js ''AAAAAAAA'')) mounted)))
             + 1 / 8000
     \<le> start_time (last (started (onmessage 0 (audio_message (js ''AAAAAAAA''))
                                     (onmessage 0 (audio_message (js ''AAAAAAAA'')) mounted))))"
    using tracked_sources_cleared_and_disjoint [of None mounted "Connected 1" interrupt_message 1 "[]"
        "js ''AAAAAAAA''" ?b3 "js ''AAAAAAAA''" ?b3 0 0]
      decodeChunk_three_frames by (simp add: duration_three_frames del: One_nat_def)
  show ?thesis
    using is_interrupted_interrupt_message h l c decodeChunk_three_frames o by (intro conjI)
qed

lemma trace_interrupted:
  "assistant_run interrupted_run mounted =
   \<lparr>isActive = True, sessionRef = Some 1, audioContextRef = Some 1,
    nextStartTimeRef = 1 / 4000,
    sourcesRef = [\<lparr>node_id = 1, node_buffer = \<lparr>numberOfChannels = 1, frameCount = 3, sampleRate = 24000, channelData = [[0, 0, 0]]\<rparr>, start_time = 1 / 8000\<rparr>],
    contexts_created = 2, nodes_created = 2,
    started = [\<lparr>node_id = 0, node_buffer = \<lparr>numberOfChannels = 1, frameCount = 6, sampleRate = 24000, channelData = [[0, 0, 0, 0, 0, 0]]\<rparr>, start_time = 0\<rparr>,
               \<lparr>node_id = 1, node_buffer = \<lparr>numberOfChannels = 1, frameCount = 3, sampleRate = 24000, channelData = [[0, 0, 0]]\<rparr>, start_time = 1 / 8000\<rparr>],
    stopped = [0], closed = [], console = [], rejections = []\<rparr>"
  by (simp add: interrupted_run_def assistant_run_def mounted_def startSession_def Let_def
      onmessage_audio [OF decodeChunk_three_frames] onmessage_audio [OF decodeChunk_six_frames]
      onmessage_interrupt stop_all_sources_eq was_started_def
      duration_three_frames duration_six_frames del: One_nat_def)

lemma trace_closed:
  "assistant_run closed_run mounted =
   \<lparr>isActive = False, sessionRef = Some 1, audioContextRef = Some 1,
    nextStartTimeRef = 1 / 8000,
    sourcesRef = [\<lparr>node_id = 0, node_buffer = \<lparr>numberOfChannels = 1, frameCount = 3, sampleRate = 24000, channelData = [[0, 0, 0]]\<rparr>, start_time = 0\<rparr>],
    contexts_created = 2, nodes_created = 1,
    started = [\<lparr>node_id = 0, node_buffer = \<lparr>numberOfChannels = 1, frameCount = 3, sampleRate = 24000, channelData = [[0, 0, 0]]\<rparr>, start_time = 0\<rparr>],
    stopped = [], closed = [], console = [], rejections = []\<rparr>"
  by (simp add: closed_run_def assistant_run_def mounted_def startSession_def Let_def
      onmessage_audio [OF decodeChunk_three_frames] onclose_def duration_three_frames
      del: One_nat_def)

text \<open>
  Three failures of the sentence as it stands. In \<open>interrupted_run\<close> the second chunk starts
  at the clock, before the scheduled end of the first, which the interruption stopped.
  After \<open>tracked_run\<close> an interruption whose audio part throws leaves the chunk tracked.
  After \<open>closed_run\<close> a clip is tracked while the component is idle, and the session that
  the button starts next finds it tracked.
\<close>

theorem tracked_sources_counterexample:
  "map start_time (started (assistant_run interrupted_run mounted)) = [0, 1 / 8000] \<and>
   map duration (map node_buffer (started (assistant_run interrupted_run mounted)))
     = [1 / 4000, 1 / 8000] \<and>
   start_time (started (assistant_run interrupted_run mounted) ! 1)
     < start_time (started (assistant_run interrupted_run mounted) ! 0)
       + duration (node_buffer (started (assistant_run interrupted_run mounted) ! 0)) \<and>
   is_interrupted interrupt_without_parts \<and>
   length (sourcesRef (onmessage 6 interrupt_without_parts (assistant_run tracked_run mounted))) = 1 \<and>
   is_interrupted interrupt_with_odd_audio \<and>
   length (sourcesRef (onmessage 6 interrupt_with_odd_audio (assistant_run tracked_run mounted))) = 1 \<and>
   \<not> isActive (assistant_run closed_run mounted) \<and>
   length (sourcesRef (assistant_run closed_run mounted)) = 1 \<and>
   isActive (assistant_step (Click (Connected 2) None) (assistant_run closed_run mounted)) \<and>
   sessionRef (assistant_step (Click (Connected 2) None) (assistant_run closed_run mounted)) = Some 2 \<and>
   length (sourcesRef (assistant_step (Click (Connected 2) None) (assistant_run closed_run mounted))) = 1"
  unfolding trace_interrupted trace_closed interrupt_without_parts_rejects
    interrupt_with_odd_audio_rejects after_tracked_run
  using is_interrupted_failing
  by (simp add: startSession_def Let_def reject_def duration_three_frames duration_six_frames
      del: One_nat_def)

section \<open>The race of clip requests\<close>

lemma stopAudio_clips:
  "clips_started (stopAudio s) = clips_started s \<and> activeAudioQuestionIdRef (stopAudio s) = None"
  by (simp add: stopAudio_def clip_stop_def Let_def split: option.splits)

lemma playAudio_called_clips:
  "clips_started (playAudio_called q s) = clips_started s \<and>
   activeAudioQuestionIdRef (playAudio_called q s) = Some q"
  by (simp add: playAudio_called_def stopAudio_clips)

lemma finally_block_clips:
  "clips_started (finally_block q s) = clips_started s \<and>
   activeAudioQuestionIdRef (finally_block q s) = activeAudioQuestionIdRef s"
  by (simp add: finally_block_def)

lemma playAudio_fetched_clips:
  "clips_started (fst (playAudio_fetched q r s)) = clips_started s \<and>
   activeAudioQuestionIdRef (fst (playAudio_fetched q r s)) = activeAudioQuestionIdRef s"
  by (simp add: playAudio_fetched_def finally_block_clips caught_def Let_def
      split: sum.splits option.splits)

lemma playAudio_decoded_clips:
  "activeAudioQuestionIdRef (playAudio_decoded q d s) = activeAudioQuestionIdRef s \<and>
   (\<exists>new. clips_started (playAudio_decoded q d s) = clips_started s @ new \<and>
          list_all (\<lambda>c. activeAudioQuestionIdRef s = Some (clip_questionId c)) new)"
proof (cases d)
  case (Inl e)
  then show ?thesis
    by (simp add: playAudio_decoded_def finally_block_clips caught_def)
next
  case (Inr b)
  show ?thesis
  proof (cases "activeAudioQuestionIdRef s = Some q")
    case True
    let ?c = "\<lparr>clip_id = clips_created s, clip_buffer = b, clip_questionId = q\<rparr>"
    have "clips_started (playAudio_decoded q d s) = clips_started s @ [?c]"
      using Inr True by (simp add: playAudio_decoded_def finally_block_clips Let_def)
    moreover have "activeAudioQuestionIdRef (playAudio_decoded q d s) = activeAudioQuestionIdRef s"
      using Inr True by (simp add: playAudio_decoded_def finally_block_clips Let_def)
    ultimately show ?thesis using True by simp
  next
    case False
    then show ?thesis using Inr
      by (simp add: playAudio_decoded_def finally_block_clips)
  qed
qed

lemma onended_clips:
  "clips_started (onended q s) = clips_started s \<and>
   activeAudioQuestionIdRef (onended q s) = activeAudioQuestionIdRef s"
  by (simp add: onended_def)

lemma step_no_play:
  assumes "\<not> is_play e"
  shows "(active (player_step e p) = active p \<or> active (player_step e p) = None) \<and>
         (\<exists>new. clips (player_step e p) = clips p @ new \<and>
                list_all (\<lambda>c. active p = Some (clip_questionId c)) new)"
proof (cases e)
  case (Play q t)
  then show ?thesis using assms by simp
next
  case StopPressed
  then show ?thesis by (simp add: active_def clips_def stopAudio_clips)
next
  case (Fetched i r)
  show ?thesis
  proof (cases "i < length (in_flight p)")
    case False
    then show ?thesis using Fetched by simp
  next
    case True
    show ?thesis
    proof (cases "in_flight p ! i")
      case (Fetching q t)
      obtain s nxt where f: "playAudio_fetched q r (app_state p) = (s, nxt)" by force
      have "clips_started s = clips_started (app_state p) \<and>
            activeAudioQuestionIdRef s = activeAudioQuestionIdRef (app_state p)"
        using playAudio_fetched_clips [of q r "app_state p"] f by simp
      then show ?thesis using Fetched True Fetching f
        by (cases nxt) (simp_all add: active_def clips_def)
    next
      case (Decoding q d)
      then show ?thesis using Fetched True by simp
    qed
  qed
next
  case (Decoded i)
  show ?thesis
  proof (cases "i < length (in_flight p)")
    case False
    then show ?thesis using Decoded by simp
  next
    case True
    show ?thesis
    proof (cases "in_flight p ! i")
      case (Fetching q t)
      then show ?thesis using Decoded True by simp
    next
      case (Decoding q d)
      then show ?thesis using Decoded True playAudio_decoded_clips [of q d "app_state p"]
        by (simp add: active_def clips_def)
    qed
  qed
next
  case (ClipEnded i)
  then show ?thesis by (simp add: active_def clips_def onended_clips)
qed

lemma run_no_play:
  "list_all (\<lambda>e. \<not> is_play e) rest \<Longrightarrow> active p = Some q \<or> active p = None \<Longrightarrow>
   \<exists>new. clips (player_run rest p) = clips p @ new \<and> list_all (\<lambda>c. clip_questionId c = q) new"
proof (induction rest arbitrary: p)
  case Nil
  then show ?case by (simp add: player_run_def)
next
  case (Cons e rest)
  then have e: "\<not> is_play e" and r: "list_all (\<lambda>e. \<not> is_play e) rest" by simp_all
  from step_no_play [OF e, of p] obtain new1 where
    a: "active (player_step e p) = active p \<or> active (player_step e p) = None"
    and c: "clips (player_step e p) = clips p @ new1"
    and l: "list_all (\<lambda>c. active p = Some (clip_questionId c)) new1" by blast
  have a': "active (player_step e p) = Some q \<or> active (player_step e p) = None"
    using a Cons.prems(2) by auto
  from Cons.IH [OF r a'] obtain new2 where
    c2: "clips (player_run rest (player_step e p)) = clips (player_step e p) @ new2"
    and l2: "list_all (\<lambda>c. clip_questionId c = q) new2" by blast
  have l1: "list_all (\<lambda>c. clip_questionId c = q) new1"
    using l Cons.prems(2) by (auto simp add: list_all_iff)
  have "clips (player_run (e # rest) p) = clips p @ (new1 @ new2)"
    using c c2 by (simp add: player_run_def)
  then show ?case using l1 l2 by (intro exI [of _ "new1 @ new2"]) simp
qed

lemma run_append: "player_run (xs @ ys) p = player_run ys (player_run xs p)"
  by (simp add: player_run_def)

lemma run_plays:
  "ps \<noteq> [] \<Longrightarrow>
   clips (player_run (map (\<lambda>(q, t). Play q t) ps) p) = clips p \<and>
   active (player_run (map (\<lambda>(q, t). Play q t) ps) p) = Some (fst (last ps))"
proof (induction ps arbitrary: p)
  case Nil
  then show ?case by simp
next
  case (Cons x ps)
  obtain q t where x: "x = (q, t)" by force
  have one: "clips (player_step (Play q t) p) = clips p \<and> active (player_step (Play q t) p) = Some q"
    by (simp add: clips_def active_def playAudio_called_clips)
  show ?case
  proof (cases "ps = []")
    case True
    then show ?thesis using x one by (simp add: player_run_def)
  next
    case False
    from Cons.IH [OF False, of "player_step (Play q t) p"] one
    show ?thesis using x False by (simp add: player_run_def)
  qed
qed

text \<open>
  C3. When several \<open>playAudio\<close> calls are issued and then resolve in any order, every clip
  that is started belongs to the \<open>questionId\<close> of the last call: a fetch or a decoding that
  completes while \<open>activeAudioQuestionIdRef\<close> is not the id captured at the call is dropped,
  and nothing of the player's state changes.
\<close>

theorem only_last_requested_clip_starts:
  "(ps \<noteq> [] \<and> list_all (\<lambda>e. \<not> is_play e) rest \<longrightarrow>
      (\<exists>new. clips_started (app_state (player_run (map (\<lambda>(q, t). Play q t) ps @ rest) p))
                = clips_started (app_state p) @ new \<and>
             list_all (\<lambda>c. clip_questionId c = fst (last ps)) new)) \<and>
   (i < length (in_flight p) \<and> in_flight p ! i = Fetching q t \<and>
    activeAudioQuestionIdRef (app_state p) \<noteq> Some q \<longrightarrow>
      player_step (Fetched i (Inr audio)) p = p\<lparr>in_flight := remove_nth i (in_flight p)\<rparr>) \<and>
   (i < length (in_flight p) \<and> in_flight p ! i = Decoding q (Inr buffer) \<and>
    activeAudioQuestionIdRef (app_state p) \<noteq> Some q \<longrightarrow>
      player_step (Decoded i) p = p\<lparr>in_flight := remove_nth i (in_flight p)\<rparr>)"
proof (intro conjI impI)
  assume h: "ps \<noteq> [] \<and> list_all (\<lambda>e. \<not> is_play e) rest"
  let ?p1 = "player_run (map (\<lambda>(q, t). Play q t) ps) p"
  have 1: "clips ?p1 = clips p" and 2: "active ?p1 = Some (fst (last ps))"
    using run_plays [of ps p] h by simp_all
  from run_no_play [of rest ?p1 "fst (last ps)"] h 2
  obtain new where "clips (player_run rest ?p1) = clips ?p1 @ new"
    and "list_all (\<lambda>c. clip_questionId c = fst (last ps)) new" by auto
  then show "\<exists>new. clips_started (app_state (player_run (map (\<lambda>(q, t). Play q t) ps @ rest) p))
                = clips_started (app_state p) @ new \<and>
             list_all (\<lambda>c. clip_questionId c = fst (last ps)) new"
    using 1 unfolding run_append clips_def by auto
next
  assume "i < length (in_flight p) \<and> in_flight p ! i = Fetching q t \<and>
    activeAudioQuestionIdRef (app_state p) \<noteq> Some q"
  then show "player_step (Fetched i (Inr audio)) p = p\<lparr>in_flight := remove_nth i (in_flight p)\<rparr>"
    by (simp add: playAudio_fetched_def finally_block_def)
next
  assume "i < length (in_flight p) \<and> in_flight p ! i = Decoding q (Inr buffer) \<and>
    activeAudioQuestionIdRef (app_state p) \<noteq> Some q"
  then show "player_step (Decoded i) p = p\<lparr>in_flight := remove_nth i (in_flight p)\<rparr>"
    by (simp add: playAudio_decoded_def finally_block_def)
qed

lemma two_plays_run:
  "map clip_questionId
     (clips_started (app_state (player_run
        (map (\<lambda>(q, t). Play q t) [(js ''q1'', js ''one''), (js ''q2'', js ''two'')]
           @ [Fetched 0 (Inr (js ''AAAAAAAA'')), Fetched 0 (Inr (js ''AAAAAAAA'')), Decoded 0])
        player_mounted))) = [js ''q2'']"
  by (simp add: player_run_def player_mounted_def playAudio_called_def stopAudio_def Let_def
      playAudio_fetched_def playAudio_decoded_def finally_block_def remove_nth_def js_def
      decode_six_bytes [unfolded js_def, simplified] decodeAudioData_six_bytes del: One_nat_def)

lemma after_two_plays:
  "player_run [Play (js ''q1'') (js ''one''), Play (js ''q2'') (js ''two'')] player_mounted =
     \<lparr>app_state = \<lparr>isAudioLoading = True, isPlaying = False, audioContextRef_App = None,
                   audioSourceRef = None, activeAudioQuestionIdRef = Some (js ''q2''),
                   clips_created = 0, clips_started = [], clips_stopped = [], console_App = []\<rparr>,
      in_flight = [Fetching (js ''q1'') (js ''one''), Fetching (js ''q2'') (js ''two'')]\<rparr>"
  by (simp add: player_run_def player_mounted_def playAudio_called_def stopAudio_def Let_def)

lemma after_play_fetch_play:
  "player_run [Play (js ''q1'') (js ''one''), Fetched 0 (Inr (js ''AAAAAAAA'')),
               Play (js ''q2'') (js ''two'')] player_mounted =
     \<lparr>app_state = \<lparr>isAudioLoading = True, isPlaying = False, audioContextRef_App = Some 0,
                   audioSourceRef = None, activeAudioQuestionIdRef = Some (js ''q2''),
                   clips_created = 0, clips_started = [], clips_stopped = [], console_App = []\<rparr>,
      in_flight = [Decoding (js ''q1'')
                     (Inr \<lparr>numberOfChannels = 1, frameCount = 3, sampleRate = 24000,
                            channelData = [[0, 0, 0]]\<rparr>),
                   Fetching (js ''q2'') (js ''two'')]\<rparr>"
  by (simp add: player_run_def player_mounted_def playAudio_called_def stopAudio_def Let_def
      playAudio_fetched_def remove_nth_def decode_six_bytes decodeAudioData_six_bytes del: One_nat_def)

lemma q1_not_q2: "Some (js ''q2'') \<noteq> Some (js ''q1'')"
  by (simp add: js_def)

theorem only_last_requested_clip_starts_witness:
  "[(js ''q1'', js ''one''), (js ''q2'', js ''two'')] \<noteq> [] \<and>
   list_all (\<lambda>e. \<not> is_play e)
     [Fetched 0 (Inr (js ''AAAAAAAA'')), Fetched 0 (Inr (js ''AAAAAAAA'')), Decoded 0] \<and>
   (\<exists>new. clips_started (app_state (player_run
             (map (\<lambda>(q, t). Play q t) [(js ''q1'', js ''one''), (js ''q2'', js ''two'')]
                @ [Fetched 0 (Inr (js ''AAAAAAAA'')), Fetched 0 (Inr (js ''AAAAAAAA'')), Decoded 0])
             player_mounted)) = clips_started (app_state player_mounted) @ new \<and>
          list_all (\<lambda>c. clip_questionId c = js ''q2'') new) \<and>
   map clip_questionId
     (clips_started (app_state (player_run
        (map (\<lambda>(q, t). Play q t) [(js ''q1'', js ''one''), (js ''q2'', js ''two'')]
           @ [Fetched 0 (Inr (js ''AAAAAAAA'')), Fetched 0 (Inr (js ''AAAAAAAA'')), Decoded 0])
        player_mounted))) = [js ''q2''] \<and>
   in_flight (player_run [Play (js ''q1'') (js ''one''), Play (js ''q2'') (js ''two'')] player_mounted) ! 0
     = Fetching (js ''q1'') (js ''one'') \<and>
   app_state (player_step (Fetched 0 (Inr (js ''AAAAAAAA'')))
                (player_run [Play (js ''q1'') (js ''one''), Play (js ''q2'') (js ''two'')] player_mounted))
     = app_state (player_run [Play (js ''q1'') (js ''one''), Play (js ''q2'') (js ''two'')] player_mounted) \<and>
   in_flight (player_step (Fetched 0 (Inr (js ''AAAAAAAA'')))
                (player_run [Play (js ''q1'') (js ''one''), Play (js ''q2'') (js ''two'')] player_mounted))
     = [Fetching (js ''q2'') (js ''two'')] \<and>
   clips_started (app_state (player_step (Decoded 0)
       (player_run [Play (js ''q1'') (js ''one''), Fetched 0 (Inr (js ''AAAAAAAA'')),
                    Play (js ''q2'') (js ''two'')] player_mounted))) = [] \<and>
   in_flight (player_step (Decoded 0)
       (player_run [Play (js ''q1'') (js ''one''), Fetched 0 (Inr (js ''AAAAAAAA'')),
                    Play (js ''q2'') (js ''two'')] player_mounted))
     = [Fetching (js ''q2'') (js ''two'')]"
proof -
  let ?b3 = "\<lparr>numberOfChannels = 1, frameCount = 3, sampleRate = 24000, channelData = [[0, 0, 0]]\<rparr>"
  let ?p2 = "player_run [Play (js ''q1'') (js ''one''), Play (js ''q2'') (js ''two'')] player_mounted"
  let ?p3 = "player_run [Play (js ''q1'') (js ''one''), Fetched 0 (Inr (js ''AAAAAAAA'')),
                         Play (js ''q2'') (js ''two'')] player_mounted"
  have l: "list_all (\<lambda>e. \<not> is_play e)
     [Fetched 0 (Inr (js ''AAAAAAAA'')), Fetched 0 (Inr (js ''AAAAAAAA'')), Decoded 0]"
    by simp
  have n: "[(js ''q1'', js ''one''), (js ''q2'', js ''two'')] \<noteq> []"
    by simp
  note t1 = only_last_requested_clip_starts [of "[(js ''q1'', js ''one''), (js ''q2'', js ''two'')]"
      "[Fetched 0 (Inr (js ''AAAAAAAA'')), Fetched 0 (Inr (js ''AAAAAAAA'')), Decoded 0]"
      player_mounted 0 "js ''q1''" "js ''one''" "js ''AAAAAAAA''" ?b3,
      THEN conjunct1, THEN mp, OF conjI, OF n l]
  have t1': "\<exists>new. clips_started (app_state (player_run
             (map (\<lambda>(q, t). Play q t) [(js ''q1'', js ''one''), (js ''q2'', js ''two'')]
                @ [Fetched 0 (Inr (js ''AAAAAAAA'')), Fetched 0 (Inr (js ''AAAAAAAA'')), Decoded 0])
             player_mounted)) = clips_started (app_state player_mounted) @ new \<and>
          list_all (\<lambda>c. clip_questionId c = js ''q2'') new"
    using t1 by simp
  have h2: "0 < length (in_flight ?p2) \<and> in_flight ?p2 ! 0 = Fetching (js ''q1'') (js ''one'') \<and>
            activeAudioQuestionIdRef (app_state ?p2) \<noteq> Some (js ''q1'')"
    unfolding after_two_plays using q1_not_q2 by simp
  have t2: "player_step (Fetched 0 (Inr (js ''AAAAAAAA''))) ?p2
              = ?p2\<lparr>in_flight := remove_nth 0 (in_flight ?p2)\<rparr>"
    using only_last_requested_clip_starts [of "[]" "[]" ?p2 0 "js ''q1''" "js ''one''"
        "js ''AAAAAAAA''" ?b3, THEN conjunct2, THEN conjunct1, THEN mp, OF h2] .
  have h3: "0 < length (in_flight ?p3) \<and> in_flight ?p3 ! 0 = Decoding (js ''q1'') (Inr ?b3) \<and>
            activeAudioQuestionIdRef (app_state ?p3) \<noteq> Some (js ''q1'')"
    unfolding after_play_fetch_play using q1_not_q2 by simp
  have t3: "player_step (Decoded 0) ?p3 = ?p3\<lparr>in_flight := remove_nth 0 (in_flight ?p3)\<rparr>"
    using only_last_requested_clip_starts [of "[]" "[]" ?p3 0 "js ''q1''" "js ''one''"
        "js ''AAAAAAAA''" ?b3, THEN conjunct2, THEN conjunct2, THEN mp, OF h3] .
  have a2: "app_state (player_step (Fetched 0 (Inr (js ''AAAAAAAA''))) ?p2) = app_state ?p2"
    unfolding t2 by simp
  have i2: "in_flight (player_step (Fetched 0 (Inr (js ''AAAAAAAA''))) ?p2)
              = [Fetching (js ''q2'') (js ''two'')]"
    unfolding t2 unfolding after_two_plays by (simp add: remove_nth_def)
  have c3: "clips_started (app_state (player_step (Decoded 0) ?p3)) = []"
    unfolding t3 unfolding after_play_fetch_play by simp
  have i3: "in_flight (player_step (Decoded 0) ?p3) = [Fetching (js ''q2'') (js ''two'')]"
    unfolding t3 unfolding after_play_fetch_play by (simp add: remove_nth_def)
  have f2: "in_flight ?p2 ! 0 = Fetching (js ''q1'') (js ''one'')"
    using h2 by simp
  show ?thesis
    using n l t1' two_plays_run f2 a2 i2 c3 i3 by (intro conjI)
qed

section \<open>The cache and the speech prompt\<close>

text \<open>
  C7. Every cache operation (answer lookup, answer save, id listing, custom-question read,
  write and delete) does nothing when no user is signed in: a read returns \<open>null\<close> or the
  empty list, a write leaves the store as it is, the call of the store is not made, so no
  error arises and nothing is retried; one warning goes to the console. Whether the
  signed-in user's email is verified makes no difference to a cache operation.
\<close>

theorem cache_skipped_when_signed_out:
  "getCachedAnswer None fault db qid = (None, signed_out_warning) \<and>
   saveAnswerToCache None fault db entry = (db, signed_out_warning) \<and>
   getAllCachedIds None fault db = ([], signed_out_warning) \<and>
   getCustomQuestions None fault db = ([], signed_out_warning) \<and>
   saveCustomQuestion None fault now db q = (db, signed_out_warning) \<and>
   deleteCustomQuestion None fault db qid = (db, signed_out_warning) \<and>
   getCachedAnswer (Some (u\<lparr>emailVerified := v\<rparr>)) fault db qid = getCachedAnswer (Some u) fault db qid \<and>
   saveAnswerToCache (Some (u\<lparr>emailVerified := v\<rparr>)) fault db entry
     = saveAnswerToCache (Some u) fault db entry \<and>
   getAllCachedIds (Some (u\<lparr>emailVerified := v\<rparr>)) fault db = getAllCachedIds (Some u) fault db \<and>
   getCustomQuestions (Some (u\<lparr>emailVerified := v\<rparr>)) fault db
     = getCustomQuestions (Some u) fault db \<and>
   saveCustomQuestion (Some (u\<lparr>emailVerified := v\<rparr>)) fault now db q
     = saveCustomQuestion (Some u) fault now db q \<and>
   deleteCustomQuestion (Some (u\<lparr>emailVerified := v\<rparr>)) fault db qid
     = deleteCustomQuestion (Some u) fault db qid"
  by (simp add: getCachedAnswer_def saveAnswerToCache_def getAllCachedIds_def
      getCustomQuestions_def saveCustomQuestion_def deleteCustomQuestion_def getValidUser_def
      signed_out_warning_def split: option.split)

text \<open>A user who is signed in with an unverified email writes to the cache and reads from it.\<close>

theorem cache_unverified_counterexample:
  "\<not> emailVerified \<lparr>uid = js ''u1'', emailVerified = False\<rparr> \<and>
   saveAnswerToCache (Some \<lparr>uid = js ''u1'', emailVerified = False\<rparr>) None no_store sample_entry
     = (\<lparr>ai_answers = [(js ''q1'', sample_entry)], user_questions = []\<rparr>, []) \<and>
   getCachedAnswer (Some \<lparr>uid = js ''u1'', emailVerified = False\<rparr>) None
       \<lparr>ai_answers = [(js ''q1'', sample_entry)], user_questions = []\<rparr> (js ''q1'')
     = (Some sample_entry, [])"
  by (simp add: saveAnswerToCache_def getCachedAnswer_def getValidUser_def no_store_def
      sample_entry_def)

lemma map_of_update: "map_of (AList.update k v al) k = Some v"
  by (simp add: update_conv')

text \<open>
  C8. A cached answer, with its audio, is stored and read under the question id alone: what
  one signed-in user saves is what any signed-in user reads under that id, and a save
  replaces the entry whoever wrote it. A custom question is stored with the uid of the user
  who saves it, and custom questions are listed for their owner only.
\<close>

theorem cache_keyed_by_question:
  "getCachedAnswer (Some reader) None
       (fst (saveAnswerToCache (Some writer) None db entry)) (questionId entry)
     = (Some entry, []) \<and>
   fst (saveAnswerToCache (Some writer) None db entry)
     = db\<lparr>ai_answers := AList.update (questionId entry) entry (ai_answers db)\<rparr> \<and>
   map_of (user_questions (fst (saveCustomQuestion (Some writer) None now db q))) (question_id q)
     = Some (question.extend q \<lparr>userId = uid writer, createdAt = now\<rparr>) \<and>
   list_all (\<lambda>d. userId d = uid reader) (fst (getCustomQuestions (Some reader) None db))"
  by (simp add: getCachedAnswer_def saveAnswerToCache_def saveCustomQuestion_def
      getCustomQuestions_def getValidUser_def map_of_update list_all_iff)

text \<open>Two users: the second reads the entry of the first, and overwrites it.\<close>

theorem cache_shared_counterexample:
  "uid \<lparr>uid = js ''u1'', emailVerified = True\<rparr> \<noteq> uid \<lparr>uid = js ''u2'', emailVerified = True\<rparr> \<and>
   fst (getCachedAnswer (Some \<lparr>uid = js ''u2'', emailVerified = True\<rparr>) None
          (fst (saveAnswerToCache (Some \<lparr>uid = js ''u1'', emailVerified = True\<rparr>) None
                  no_store sample_entry)) (js ''q1''))
     = Some sample_entry \<and>
   fst (getCachedAnswer (Some \<lparr>uid = js ''u1'', emailVerified = True\<rparr>) None
          (fst (saveAnswerToCache (Some \<lparr>uid = js ''u2'', emailVerified = True\<rparr>) None
                  (fst (saveAnswerToCache (Some \<lparr>uid = js ''u1'', emailVerified = True\<rparr>) None
                          no_store sample_entry))
                  (sample_entry\<lparr>answer := js ''Another''\<rparr>))) (js ''q1''))
     = Some (sample_entry\<lparr>answer := js ''Another''\<rparr>)"
  by (simp add: saveAnswerToCache_def getCachedAnswer_def getValidUser_def no_store_def
      sample_entry_def js_def)

lemma replace_blank_lines_set:
  "set (replace_blank_lines xs) \<subseteq> set xs \<union> {46, 32}"
  by (induction xs rule: replace_blank_lines.induct) (auto simp add: js_def)

lemma not_markdown_dot_space: "\<not> markdown_char 46 \<and> \<not> markdown_char 32"
  by (simp add: markdown_char_def)

lemma cleanText_no_markdown: "list_all (\<lambda>c. \<not> markdown_char c) (cleanText txt)"
proof -
  have "set (cleanText txt) \<subseteq> set (replace_blank_lines (filter (\<lambda>c. \<not> markdown_char c) txt))"
    unfolding cleanText_def by (rule set_take_subset)
  also have "\<dots> \<subseteq> set (filter (\<lambda>c. \<not> markdown_char c) txt) \<union> {46, 32}"
    by (rule replace_blank_lines_set)
  finally show ?thesis
    using not_markdown_dot_space by (auto simp add: list_all_iff)
qed

lemma replace_blank_lines_head:
  "d \<noteq> 10 \<Longrightarrow> \<exists>r'. replace_blank_lines (d # r) = d # r'"
  by (cases r) auto

lemma no_blank_line_replaced: "\<not> has_blank_line (replace_blank_lines xs)"
proof (induction xs rule: replace_blank_lines.induct)
  case (1 c d r)
  show ?case
  proof (cases "c = 10 \<and> d = 10")
    case True
    then have "replace_blank_lines (c # d # r) = 46 # 32 # replace_blank_lines r"
      by (simp add: js_def)
    moreover have "\<not> has_blank_line (replace_blank_lines r)" using 1 True by simp
    ultimately show ?thesis by (cases "replace_blank_lines r") simp_all
  next
    case False
    then have e: "replace_blank_lines (c # d # r) = c # replace_blank_lines (d # r)" by auto
    have ih: "\<not> has_blank_line (replace_blank_lines (d # r))" using 1 False by simp
    show ?thesis
    proof (cases "d = 10")
      case True
      then have "c \<noteq> 10" using False by simp
      then show ?thesis unfolding e using ih
        by (cases "replace_blank_lines (d # r)") simp_all
    next
      case d: False
      then obtain r' where r': "replace_blank_lines (d # r) = d # r'"
        using replace_blank_lines_head by blast
      show ?thesis unfolding e using ih d unfolding r' by simp
    qed
  qed
qed simp_all

lemma has_blank_line_take: "has_blank_line (take n xs) \<Longrightarrow> has_blank_line xs"
proof (induction xs arbitrary: n rule: has_blank_line.induct)
  case (1 c d r)
  show ?case
  proof (cases n)
    case 0
    then show ?thesis using 1 by simp
  next
    case (Suc m)
    show ?thesis
    proof (cases m)
      case 0
      then show ?thesis using 1 Suc by simp
    next
      case (Suc k)
      then have "take n (c # d # r) = c # d # take k r" using \<open>n = Suc m\<close> by simp
      then have "c = 10 \<and> d = 10 \<or> has_blank_line (d # take k r)" using 1(2) by simp
      moreover have "d # take k r = take m (d # r)" using Suc by simp
      ultimately show ?thesis using 1(1) [of m] by auto
    qed
  qed
qed (auto simp add: take_Cons split: nat.splits)

lemma cleanText_no_blank_line: "\<not> has_blank_line (cleanText txt)"
  unfolding cleanText_def using has_blank_line_take no_blank_line_replaced by blast

text \<open>
  C10. Every prompt that \<open>getAudioFromText\<close> sends to the speech service is the fixed
  instruction followed by the cleaned text: the text without \<open>#\<close>, \<open>*\<close> and the backquote,
  with each blank line replaced by a period and a space, cut to its first 1500 code units.
  The prompt is sent whenever the cache holds no audio for the question. The cleaned text
  has at most 1500 code units, none of the three characters and no blank line.
\<close>

theorem speech_prompt_is_cleaned_text:
  "list_all (\<lambda>p. p = js ''Explain this as a friendly mentor in a podcast style: '' @ cleanText txt)
     (prompts (getAudioFromText currentUser read_fault write_fault tts db qid txt)) \<and>
   (cached_audio (fst (getCachedAnswer currentUser read_fault db qid)) = None \<longrightarrow>
      prompts (getAudioFromText currentUser read_fault write_fault tts db qid txt)
        = [js ''Explain this as a friendly mentor in a podcast style: '' @ cleanText txt]) \<and>
   cleanText txt = take 1500 (replace_blank_lines (filter (\<lambda>c. \<not> markdown_char c) txt)) \<and>
   length (cleanText txt) \<le> 1500 \<and>
   (1500 < length (replace_blank_lines (filter (\<lambda>c. \<not> markdown_char c) txt)) \<longrightarrow>
      length (cleanText txt) = 1500) \<and>
   list_all (\<lambda>c. \<not> markdown_char c) (cleanText txt) \<and>
   \<not> has_blank_line (cleanText txt)"
proof -
  obtain cached out where g: "getCachedAnswer currentUser read_fault db qid = (cached, out)" by force
  have a: "list_all (\<lambda>p. p = tts_prompt txt)
     (prompts (getAudioFromText currentUser read_fault write_fault tts db qid txt))"
    unfolding getAudioFromText_def g
    by (simp split: option.splits list.splits sum.splits prod.splits)
  have b: "cached_audio (fst (getCachedAnswer currentUser read_fault db qid)) = None \<longrightarrow>
      prompts (getAudioFromText currentUser read_fault write_fault tts db qid txt) = [tts_prompt txt]"
    unfolding getAudioFromText_def g cached_audio_def
    by (simp split: option.splits list.splits sum.splits prod.splits)
  show ?thesis
    using a b cleanText_no_markdown cleanText_no_blank_line
    by (simp add: tts_prompt_def cleanText_def)
qed

lemma sample_clean: "cleanText (js ''#a*'' @ [10, 10] @ js ''b`'') = js ''a. b''"
  by code_simp

lemma replace_blank_lines_id: "10 \<notin> set xs \<Longrightarrow> replace_blank_lines xs = xs"
  by (induction xs rule: replace_blank_lines.induct) auto

lemma long_clean:
  "1500 < length (replace_blank_lines (filter (\<lambda>c. \<not> markdown_char c) (replicate 1600 (of_char CHR ''a''))))"
proof -
  have "filter (\<lambda>c. \<not> markdown_char c) (replicate 1600 (of_char CHR ''a'')) = replicate 1600 (of_char CHR ''a'')"
    by (simp add: markdown_char_def)
  moreover have "replace_blank_lines (replicate 1600 (of_char CHR ''a'')) = replicate 1600 (of_char CHR ''a'')"
    by (rule replace_blank_lines_id) simp
  ultimately show ?thesis by simp
qed

theorem speech_prompt_is_cleaned_text_witness:
  "cached_audio (fst (getCachedAnswer None None no_store (js ''q1''))) = None \<and>
   prompts (getAudioFromText None None None (\<lambda>p. Inr (Some (js ''AAAAAAAA''))) no_store (js ''q1'')
              (js ''#a*'' @ [10, 10] @ js ''b`''))
     = [js ''Explain this as a friendly mentor in a podcast style: a. b''] \<and>
   1500 < length (replace_blank_lines (filter (\<lambda>c. \<not> markdown_char c) (replicate 1600 (of_char CHR ''a'')))) \<and>
   length (cleanText (replicate 1600 (of_char CHR ''a''))) = 1500"
proof -
  have c: "cached_audio (fst (getCachedAnswer None None no_store (js ''q1''))) = None"
    by (simp add: cached_audio_def getCachedAnswer_def getValidUser_def)
  have "prompts (getAudioFromText None None None (\<lambda>p. Inr (Some (js ''AAAAAAAA''))) no_store (js ''q1'')
              (js ''#a*'' @ [10, 10] @ js ''b`''))
     = [js ''Explain this as a friendly mentor in a podcast style: '' @ cleanText (js ''#a*'' @ [10, 10] @ js ''b`'')]"
    using speech_prompt_is_cleaned_text [of "js ''#a*'' @ [10, 10] @ js ''b`''" None None None
        "\<lambda>p. Inr (Some (js ''AAAAAAAA''))" no_store "js ''q1''"] c
    by blast
  then have p: "prompts (getAudioFromText None None None (\<lambda>p. Inr (Some (js ''AAAAAAAA''))) no_store (js ''q1'')
              (js ''#a*'' @ [10, 10] @ js ''b`''))
     = [js ''Explain this as a friendly mentor in a podcast style: a. b'']"
    unfolding sample_clean by (simp add: js_def)
  have l: "length (cleanText (replicate 1600 (of_char CHR ''a''))) = 1500"
    using speech_prompt_is_cleaned_text [of "replicate 1600 (of_char CHR ''a'')" None None None
        "\<lambda>p. Inr None" no_store "[]"] long_clean
    by blast
  show ?thesis using c p long_clean l by (intro conjI)
qed


end
